theory Spec2Isabelle
  imports Main "HOL-Library.Multiset"
begin

section \<open>Values of the runtime\<close>

text \<open>
  A JavaScript number as the program meets it. \<open>Num n\<close> stands for the number that
  the integer \<open>n\<close> has as its value: \<open>n\<close> itself up to \<open>2^53\<close> in magnitude, the
  nearest double beyond (which \<open>parseInt\<close> gives for a long digit string), infinity
  from about \<open>1.8 * 10^308\<close> on. A timestamp of \<open>getTime\<close> and every score of the
  examples are below \<open>2^53\<close>, where \<open>Num n\<close> is exactly \<open>n\<close>.
\<close>

datatype jsnum = Num int | NaN

text \<open>The relational operators and the subtraction of numbers; every comparison with
  \<open>NaN\<close> is false, every difference with \<open>NaN\<close> is \<open>NaN\<close>. The program compares
  a score with \<open>minimumScore\<close> only and subtracts timestamps only: there rounding changes
  neither the comparison nor the sign of the difference.\<close>

fun js_gt :: "jsnum \<Rightarrow> jsnum \<Rightarrow> bool" where
  "js_gt (Num a) (Num b) = (a > b)"
| "js_gt _ _ = False"

fun js_lt :: "jsnum \<Rightarrow> jsnum \<Rightarrow> bool" where
  "js_lt (Num a) (Num b) = (a < b)"
| "js_lt _ _ = False"

fun js_sub :: "jsnum \<Rightarrow> jsnum \<Rightarrow> jsnum" where
  "js_sub (Num a) (Num b) = Num (a - b)"
| "js_sub _ _ = NaN"

text \<open>
  A value as \<open>JSON.parse\<close> builds it, and \<open>undefined\<close>, which only the read of
  a missing property yields. \<open>JNum n\<close> is a number whose value is the integer \<open>n\<close>,
  of magnitude below \<open>10^21\<close>: such a number prints as its decimal digits. Every
  other number is \<open>JNumOther s\<close>, kept as the text \<open>s\<close> that the runtime prints for
  it (\<open>15.5\<close>, \<open>1e+21\<close>). An object lists its properties, each name once.
\<close>

datatype jsval =
    JUndefined
  | JNull
  | JBool bool
  | JNum int
  | JNumOther string
  | JStr string
  | JArr "jsval list"
  | JObj "(string \<times> jsval) list"

subsection \<open>Strings\<close>

fun starts_with :: "string \<Rightarrow> string \<Rightarrow> bool" where
  "starts_with _ [] = True"
| "starts_with [] (p # ps) = False"
| "starts_with (c # cs) (p # ps) = (c = p \<and> starts_with cs ps)"

text \<open>\<open>String.prototype.includes\<close>: the pattern occurs at some position.\<close>

fun str_includes :: "string \<Rightarrow> string \<Rightarrow> bool" where
  "str_includes [] p = (p = [])"
| "str_includes (c # cs) p = (starts_with (c # cs) p \<or> str_includes cs p)"

text \<open>
  White space as \<open>trim\<close> and \<open>parseInt\<close> skip it, among the characters below 256:
  tab, line feed, vertical tab, form feed, carriage return, space, no-break space.
\<close>

definition is_space :: "char \<Rightarrow> bool" where
  "is_space c = (c \<in> set [CHR 0x09, CHR 0x0A, CHR 0x0B, CHR 0x0C, CHR 0x0D, CHR 0x20, CHR 0xA0])"

definition is_digit :: "char \<Rightarrow> bool" where
  "is_digit c = (c \<in> set ''0123456789'')"

definition digit_val :: "char \<Rightarrow> int" where
  "digit_val c = int (of_char c) - 48"

definition digit_char :: "nat \<Rightarrow> char" where
  "digit_char d = ''0123456789'' ! d"

text \<open>The decimal digits of a natural number, as \<open>String(n)\<close> and a template print them.\<close>

fun show_nat :: "nat \<Rightarrow> string" where
  "show_nat n = (if n < 10 then [digit_char n] else show_nat (n div 10) @ [digit_char (n mod 10)])"

declare show_nat.simps [simp del]

definition show_int :: "int \<Rightarrow> string" where
  "show_int i = (if i < 0 then CHR ''-'' # show_nat (nat (- i)) else show_nat (nat i))"

fun join :: "string \<Rightarrow> string list \<Rightarrow> string" where
  "join sep [] = []"
| "join sep [x] = x"
| "join sep (x # y # ys) = x @ sep @ join sep (y # ys)"

subsection \<open>\<open>parseInt(value, 10)\<close>\<close>

text \<open>
  The conversion of a value to a string, which a template and \<open>parseInt\<close> apply to
  their argument. An array prints as its elements joined by commas, \<open>null\<close> and
  \<open>undefined\<close> elements as nothing. An object prints as \<open>[object Object]\<close>, unless
  it has a property \<open>toString\<close> of its own: no value of \<open>JSON.parse\<close> can be called,
  the inherited \<open>valueOf\<close> returns the object, and the conversion throws a
  \<open>TypeError\<close> (\<open>Inl\<close> its message).
\<close>

fun first_error :: "(string + 'a) list \<Rightarrow> string + 'a list" where
  "first_error [] = Inr []"
| "first_error (Inl msg # rs) = Inl msg"
| "first_error (Inr x # rs) = (case first_error rs of Inl msg \<Rightarrow> Inl msg | Inr xs \<Rightarrow> Inr (x # xs))"

fun to_string :: "jsval \<Rightarrow> string + string" where
  "to_string JUndefined = Inr ''undefined''"
| "to_string JNull = Inr ''null''"
| "to_string (JBool b) = Inr (if b then ''true'' else ''false'')"
| "to_string (JNum n) = Inr (show_int n)"
| "to_string (JNumOther s) = Inr s"
| "to_string (JStr s) = Inr s"
| "to_string (JArr xs) =
     (case first_error
             (map (\<lambda>x. if x = JUndefined \<or> x = JNull then Inr [] else to_string x) xs) of
        Inl msg \<Rightarrow> Inl msg
      | Inr printed \<Rightarrow> Inr (join '','' printed))"
| "to_string (JObj ps) =
     (if ''toString'' \<in> set (map fst ps) then Inl ''Cannot convert object to primitive value''
      else Inr ''[object Object]'')"

text \<open>
  \<open>parseInt\<close> converts its argument to a string, skips leading white space, reads a
  sign, and reads decimal digits as far as they go: none gives \<open>NaN\<close>. The digits read
  denote an integer \<open>n\<close> and the result is the number for it, \<open>Num n\<close>: exactly \<open>n\<close>
  for every number that \<open>JNum\<close> holds and for every digit string up to \<open>2^53\<close>, the
  rounded value for a longer one.
\<close>

definition digits_value :: "string \<Rightarrow> int" where
  "digits_value ds = foldl (\<lambda>acc c. 10 * acc + digit_val c) 0 ds"

definition parse_int_str :: "string \<Rightarrow> jsnum" where
  "parse_int_str s =
     (let s1 = dropWhile is_space s;
          sign = (case s1 of c # _ \<Rightarrow> if c = CHR ''-'' then - 1 else 1 | [] \<Rightarrow> 1);
          s2 = (case s1 of c # r \<Rightarrow> if c = CHR ''-'' \<or> c = CHR ''+'' then r else s1 | [] \<Rightarrow> s1);
          ds = takeWhile is_digit s2
      in if ds = [] then NaN else Num (sign * digits_value ds))"

definition parseInt :: "jsval \<Rightarrow> string + jsnum" where
  "parseInt v = (case to_string v of Inl msg \<Rightarrow> Inl msg | Inr s \<Rightarrow> Inr (parse_int_str s))"

section \<open>Configuration and the world outside\<close>

record config =
  feedUrl :: string
  minimumScore :: int
  cacheMaxAge :: nat
  cacheKey :: string
  rateLimitDelay :: nat
  maxRetries :: nat
  retryDelay :: nat

definition CONFIG :: config where
  "CONFIG = \<lparr> feedUrl = ''https://lobste.rs/rss'', minimumScore = 10, cacheMaxAge = 1800,
     cacheKey = ''lobsters-rss-feed'', rateLimitDelay = 200, maxRetries = 3,
     retryDelay = 1000 \<rparr>"

text \<open>
  What one \<open>fetch(url)\<close> followed by \<open>response.text()\<close> gives: the body, or a
  rejection, of which the program only reads the error's message.
\<close>

datatype response = Rejects string | Body string

text \<open>
  The collaborators the program does not contain: the network (\<open>net n url\<close> answers the
  \<open>n\<close>-th request of the run when it goes to \<open>url\<close>), \<open>JSON.parse\<close> (\<open>Inl\<close> is
  the message of the error it throws), \<open>Date\<close> parsing followed by \<open>getTime\<close>, and
  the faults of the key-value store (\<open>kv_fault n\<close> is the message of the error raised
  by the \<open>n\<close>-th store operation, if it raises).
\<close>

record env =
  net :: "nat \<Rightarrow> string \<Rightarrow> response"
  json_parse :: "string \<Rightarrow> string + jsval"
  date_time :: "string \<Rightarrow> jsnum"
  kv_fault :: "nat \<Rightarrow> string option"

datatype kv_op = KvGet string | KvPut string string nat | KvDelete string

text \<open>
  The effects of a run: the number of requests sent, the delays slept (in order), the
  content of the store (document and time-to-live per key) and the store operations
  attempted (in order).
\<close>

record world =
  requests :: nat
  slept :: "nat list"
  kv :: "string \<rightharpoonup> string \<times> nat"
  kv_log :: "kv_op list"

definition fetch_text :: "env \<Rightarrow> string \<Rightarrow> world \<Rightarrow> response \<times> world" where
  "fetch_text e url w = (net e (requests w) url, w\<lparr>requests := Suc (requests w)\<rparr>)"

definition sleep :: "nat \<Rightarrow> world \<Rightarrow> world" where
  "sleep ms w = w\<lparr>slept := slept w @ [ms]\<rparr>"

section \<open>The score fetcher\<close>

definition isThrottledResponse :: "string \<Rightarrow> bool" where
  "isThrottledResponse text = (str_includes text ''Throttled'' \<or> str_includes text ''Rate limit'')"

text \<open>
  \<open>const { score } = data\<close>: reading the property of \<open>null\<close> throws a
  \<open>TypeError\<close>, a missing property reads as \<open>undefined\<close>, and so does the property
  of a boolean, a number, a string or an array.
\<close>

definition destructure_message :: "string \<Rightarrow> string" where
  "destructure_message what =
     ''Cannot destructure property 'score' of 'data' as it is '' @ what @ ''.''"

fun get_score :: "jsval \<Rightarrow> string + jsval" where
  "get_score JNull = Inl (destructure_message ''null'')"
| "get_score JUndefined = Inl (destructure_message ''undefined'')"
| "get_score (JObj ps) = Inr (case map_of ps ''score'' of None \<Rightarrow> JUndefined | Some v \<Rightarrow> v)"
| "get_score _ = Inr JUndefined"

text \<open>
  One pass through the \<open>try\<close> block of \<open>fetchArticleScore\<close>, up to the point where
  it returns a score, finds the response throttled, or throws. \<open>read_score\<close> is what
  the block makes of the answer to its request: the marker test, \<open>JSON.parse\<close>, the
  read of \<open>score\<close>, the log line that prints the score in a template, and
  \<open>parseInt\<close>.
\<close>

datatype attempt = Returned jsnum | Throttled | Thrown string

definition read_score :: "env \<Rightarrow> response \<Rightarrow> attempt" where
  "read_score e r =
     (case r of
        Rejects msg \<Rightarrow> Thrown msg
      | Body responseText \<Rightarrow>
          if isThrottledResponse responseText then Throttled
          else (case json_parse e responseText of
                  Inl msg \<Rightarrow> Thrown msg
                | Inr data \<Rightarrow>
                    (case get_score data of
                       Inl msg \<Rightarrow> Thrown msg
                     | Inr score \<Rightarrow>
                         (case to_string score of
                            Inl msg \<Rightarrow> Thrown msg
                          | Inr printed \<Rightarrow>
                              (case parseInt score of
                                 Inl msg \<Rightarrow> Thrown msg
                               | Inr n \<Rightarrow> Returned n)))))"

definition try_fetch_score :: "env \<Rightarrow> string \<Rightarrow> world \<Rightarrow> attempt \<times> world" where
  "try_fetch_score e url w =
     (case fetch_text e (url @ ''.json'') w of (r, w1) \<Rightarrow> (read_score e r, w1))"

text \<open>
  The outcomes after which \<open>fetchArticleScore\<close> calls itself again while retries are
  left, and what it returns when it does not call again.
\<close>

fun asks_again :: "attempt \<Rightarrow> bool" where
  "asks_again Throttled = True"
| "asks_again (Thrown msg) = str_includes msg ''Unexpected token''"
| "asks_again (Returned n) = False"

fun final_score :: "attempt \<Rightarrow> jsnum" where
  "final_score (Returned n) = n"
| "final_score Throttled = Num 0"
| "final_score (Thrown msg) = Num 0"

text \<open>
  \<open>fetchArticleScore(url, retryCount)\<close>: the throttled branch and the \<open>catch\<close>
  handler both sleep \<open>retryDelay * 2^retryCount\<close> and call again with
  \<open>retryCount + 1\<close> while \<open>retryCount < maxRetries\<close>; every other failure returns 0.
\<close>

function fetchArticleScore :: "config \<Rightarrow> env \<Rightarrow> string \<Rightarrow> nat \<Rightarrow> world \<Rightarrow> jsnum \<times> world" where
  "fetchArticleScore cfg e url retryCount w =
     (case try_fetch_score e url w of
        (Returned n, w1) \<Rightarrow> (n, w1)
      | (Throttled, w1) \<Rightarrow>
          if retryCount < maxRetries cfg
          then fetchArticleScore cfg e url (Suc retryCount)
                 (sleep (retryDelay cfg * 2 ^ retryCount) w1)
          else (Num 0, w1)
      | (Thrown msg, w1) \<Rightarrow>
          if retryCount < maxRetries cfg \<and> str_includes msg ''Unexpected token''
          then fetchArticleScore cfg e url (Suc retryCount)
                 (sleep (retryDelay cfg * 2 ^ retryCount) w1)
          else (Num 0, w1))"
  by pat_completeness auto
termination
  by (relation "measure (\<lambda>(cfg, e, url, retryCount, w). maxRetries cfg - retryCount)") auto

declare fetchArticleScore.simps [simp del]

section \<open>Text extraction and item parsing\<close>

text \<open>
  Matching under the \<open>i\<close> flag compares characters after upper-casing; for the
  patterns of this program (ASCII letters and punctuation) only ASCII letters fold.
\<close>

definition to_upper :: "char \<Rightarrow> char" where
  "to_upper c =
     (case map_of (zip ''abcdefghijklmnopqrstuvwxyz'' ''ABCDEFGHIJKLMNOPQRSTUVWXYZ'') c of
        Some u \<Rightarrow> u
      | None \<Rightarrow> c)"

fun starts_with_ci :: "string \<Rightarrow> string \<Rightarrow> bool" where
  "starts_with_ci _ [] = True"
| "starts_with_ci [] (p # ps) = False"
| "starts_with_ci (c # cs) (p # ps) = (to_upper c = to_upper p \<and> starts_with_ci cs ps)"

text \<open>The text before and after the first occurrence of a pattern, if it occurs.\<close>

fun split_at_ci :: "string \<Rightarrow> string \<Rightarrow> (string \<times> string) option" where
  "split_at_ci p [] = (if p = [] then Some ([], []) else None)"
| "split_at_ci p (c # cs) =
     (if starts_with_ci (c # cs) p then Some ([], drop (length p) (c # cs))
      else map_option (\<lambda>(b, a). (c # b, a)) (split_at_ci p cs))"

text \<open>
  The regular expression \<open><tag[^>]*>([\s\S]*?)</tag>\<close> tried at the start of a text:
  the opening name, everything up to the next \<open>>\<close>, then as little as possible up to
  the first closing tag. The result is the captured group and the text left after the
  match.
\<close>

definition match_at :: "string \<Rightarrow> string \<Rightarrow> (string \<times> string) option" where
  "match_at tag s =
     (if starts_with_ci s (CHR ''<'' # tag)
      then (case dropWhile (\<lambda>c. c \<noteq> CHR ''>'') (drop (Suc (length tag)) s) of
              [] \<Rightarrow> None
            | _ # inner \<Rightarrow> split_at_ci (''</'' @ tag @ ''>'') inner)
      else None)"

text \<open>The first match, searching from the left (\<open>String.prototype.match\<close> without \<open>g\<close>).\<close>

fun search_tag :: "string \<Rightarrow> string \<Rightarrow> (string \<times> string) option" where
  "search_tag tag [] = None"
| "search_tag tag (c # cs) =
     (case match_at tag (c # cs) of Some r \<Rightarrow> Some r | None \<Rightarrow> search_tag tag cs)"

text \<open>
  All matches, left to right, each search resuming where the last match ended
  (\<open>String.prototype.match\<close> with \<open>g\<close>); the counter is the number of characters of
  the last match still to pass. The result holds the matched texts in full.
\<close>

fun match_all_from :: "string \<Rightarrow> nat \<Rightarrow> string \<Rightarrow> string list" where
  "match_all_from tag k [] = []"
| "match_all_from tag (Suc k) (c # cs) = match_all_from tag k cs"
| "match_all_from tag 0 (c # cs) =
     (case match_at tag (c # cs) of
        None \<Rightarrow> match_all_from tag 0 cs
      | Some (g, rest) \<Rightarrow>
          (let n = length (c # cs) - length rest
           in take n (c # cs) # match_all_from tag (n - 1) cs))"

definition trim :: "string \<Rightarrow> string" where
  "trim s = rev (dropWhile is_space (rev (dropWhile is_space s)))"

definition extractTextContent :: "string \<Rightarrow> string \<Rightarrow> string" where
  "extractTextContent xml tag =
     (case search_tag tag xml of Some (g, rest) \<Rightarrow> trim g | None \<Rightarrow> [])"

record article =
  title :: string
  author :: string
  link :: string
  comments :: string
  published :: string
  guid :: string

record scored_article = article +
  timestamp :: jsnum
  score :: jsnum

definition parseArticleFromXml :: "string \<Rightarrow> article" where
  "parseArticleFromXml itemXml =
     \<lparr> title = extractTextContent itemXml ''title'',
       author = takeWhile (\<lambda>c. c \<noteq> CHR ''@'') (extractTextContent itemXml ''author''),
       link = extractTextContent itemXml ''link'',
       comments = extractTextContent itemXml ''comments'',
       published = extractTextContent itemXml ''pubDate'',
       guid = extractTextContent itemXml ''guid'' \<rparr>"

section \<open>Serialization\<close>

text \<open>\<open>str.replace(/c/g, r)\<close> for a single character \<open>c\<close> and a literal \<open>r\<close>.\<close>

definition replace_all :: "char \<Rightarrow> string \<Rightarrow> string \<Rightarrow> string" where
  "replace_all c r s = concat (map (\<lambda>x. if x = c then r else [x]) s)"

definition escapeXml :: "string \<Rightarrow> string" where
  "escapeXml str =
     replace_all (CHR 0x27) ''&#39;''
       (replace_all (CHR 0x22) ''&quot;''
         (replace_all (CHR ''>'') ''&gt;''
           (replace_all (CHR ''<'') ''&lt;''
             (replace_all (CHR ''&'') ''&amp;'' str))))"

definition tab :: string where "tab = [CHR 0x09]"
definition nl :: string where "nl = [CHR 0x0A]"

definition quoted :: "string \<Rightarrow> string" where
  "quoted s = CHR 0x22 # s @ [CHR 0x22]"

definition generateRssItem :: "'a article_scheme \<Rightarrow> string" where
  "generateRssItem a =
     tab @ ''<item>'' @ nl @
     tab @ tab @ ''<title>'' @ escapeXml (title a) @ ''</title>'' @ nl @
     tab @ tab @ ''<author>'' @ escapeXml (author a) @ ''</author>'' @ nl @
     tab @ tab @ ''<link>'' @ escapeXml (link a) @ ''</link>'' @ nl @
     tab @ tab @ ''<comments>'' @ escapeXml (comments a) @ ''</comments>'' @ nl @
     tab @ tab @ ''<wfw:commentRss>'' @ escapeXml (comments a) @ ''</wfw:commentRss>'' @ nl @
     tab @ tab @ ''<guid isPermaLink='' @ quoted ''false'' @ ''>'' @ escapeXml (guid a) @ ''</guid>'' @ nl @
     tab @ tab @ ''<pubDate>'' @ published a @ ''</pubDate>'' @ nl @
     tab @ ''</item>''"

subsection \<open>\<open>Array.prototype.sort\<close> with a comparator\<close>

text \<open>
  The comparator's result counts by its sign, and \<open>NaN\<close> counts as zero. ECMAScript
  asks for a stable sort; for a comparator that orders the elements consistently this
  determines the result, for any other the order is left to the runtime. The runtime
  of the program is V8, which sorts an array of fewer than 64 elements in two steps:
  it takes the longest run at the start that is already in order, or strictly against
  the order (then it reverses the run), and inserts each further element into the
  sorted part at the place a binary search finds. A longer array it cuts into such
  runs and merges them, with the same result whenever the comparator is consistent.
  \<open>array_sort\<close> is the sort of the short array.
\<close>

definition is_negative :: "jsnum \<Rightarrow> bool" where
  "is_negative v = js_lt v (Num 0)"

text \<open>
  The number of elements that continue the run after \<open>previous\<close>: in a descending
  run each element compares negative with the one before it, in an ascending run none
  does.
\<close>

fun run_length_from :: "('a \<Rightarrow> 'a \<Rightarrow> jsnum) \<Rightarrow> bool \<Rightarrow> 'a \<Rightarrow> 'a list \<Rightarrow> nat" where
  "run_length_from cmp descending previous [] = 0"
| "run_length_from cmp descending previous (current # rest) =
     (if is_negative (cmp current previous) = descending
      then Suc (run_length_from cmp descending current rest)
      else 0)"

text \<open>
  The binary search for the place of \<open>pivot\<close> among the sorted elements between
  \<open>left\<close> and \<open>right\<close>: left of the middle element when the pivot compares negative
  with it, right of it otherwise.
\<close>

function insertion_point :: "('a \<Rightarrow> 'a \<Rightarrow> jsnum) \<Rightarrow> 'a \<Rightarrow> 'a list \<Rightarrow> nat \<Rightarrow> nat \<Rightarrow> nat" where
  "insertion_point cmp pivot xs left right =
     (if left < right
      then (if is_negative (cmp pivot (xs ! (left + (right - left) div 2)))
            then insertion_point cmp pivot xs left (left + (right - left) div 2)
            else insertion_point cmp pivot xs (Suc (left + (right - left) div 2)) right)
      else left)"
  by pat_completeness auto
termination
  by (relation "measure (\<lambda>(cmp, pivot, xs, left, right). right - left)") auto

declare insertion_point.simps [simp del]

definition binary_insert :: "('a \<Rightarrow> 'a \<Rightarrow> jsnum) \<Rightarrow> 'a \<Rightarrow> 'a list \<Rightarrow> 'a list" where
  "binary_insert cmp pivot front =
     (let p = insertion_point cmp pivot front 0 (length front)
      in take p front @ pivot # drop p front)"

definition array_sort :: "('a \<Rightarrow> 'a \<Rightarrow> jsnum) \<Rightarrow> 'a list \<Rightarrow> 'a list" where
  "array_sort cmp xs =
     (case xs of
        x0 # x1 # rest \<Rightarrow>
          (let descending = is_negative (cmp x1 x0);
               n = 2 + run_length_from cmp descending x1 rest;
               run = (if descending then rev (take n xs) else take n xs)
           in foldl (\<lambda>front pivot. binary_insert cmp pivot front) run (drop n xs))
      | _ \<Rightarrow> xs)"

text \<open>The comparator of \<open>writeArticlesFeed\<close>: \<open>(a, b) => b.timestamp - a.timestamp\<close>.\<close>

definition by_timestamp_desc :: "'a scored_article_scheme \<Rightarrow> 'a scored_article_scheme \<Rightarrow> jsnum" where
  "by_timestamp_desc a b = js_sub (timestamp b) (timestamp a)"

definition filteredAndSorted :: "config \<Rightarrow> 'a scored_article_scheme list \<Rightarrow> 'a scored_article_scheme list" where
  "filteredAndSorted cfg articles =
     array_sort by_timestamp_desc
       (filter (\<lambda>article. js_gt (score article) (Num (minimumScore cfg))) articles)"

definition feed_head :: string where
  "feed_head =
     ''<?xml version='' @ quoted ''1.0'' @ '' encoding='' @ quoted ''UTF-8'' @ ''?>'' @ nl @
     ''<rss version='' @ quoted ''2.0'' @
     '' xmlns:atom='' @ quoted ''http://www.w3.org/2005/Atom'' @
     '' xmlns:wfw='' @ quoted ''http://wellformedweb.org/CommentAPI/'' @
     '' xmlns:slash='' @ quoted ''http://purl.org/rss/1.0/modules/slash/'' @ ''>'' @ nl @
     tab @ ''<channel>'' @ nl @
     tab @ tab @ ''<title>Lobsters</title>'' @ nl @
     tab @ tab @ ''<link>https://lobste.rs</link>'' @ nl @
     tab @ tab @ ''<description></description>'' @ nl"

definition feed_tail :: string where
  "feed_tail = nl @ tab @ ''</channel>'' @ nl @ ''</rss>''"

definition writeArticlesFeed :: "config \<Rightarrow> 'a scored_article_scheme list \<Rightarrow> string" where
  "writeArticlesFeed cfg articles =
     feed_head @ join nl (map generateRssItem (filteredAndSorted cfg articles)) @ feed_tail"

section \<open>The aggregation pipeline\<close>

text \<open>
  The loop of \<open>fetchAllArticles\<close>: one score fetch per article, in order, and a sleep
  of \<open>rateLimitDelay\<close> after each article but the last.
\<close>

fun score_articles :: "config \<Rightarrow> env \<Rightarrow> article list \<Rightarrow> world \<Rightarrow> scored_article list \<times> world" where
  "score_articles cfg e [] w = ([], w)"
| "score_articles cfg e (a # rest) w =
     (case fetchArticleScore cfg e (comments a) 0 w of
        (sc, w1) \<Rightarrow>
          (case score_articles cfg e rest
                  (if rest \<noteq> [] then sleep (rateLimitDelay cfg) w1 else w1) of
             (out, w2) \<Rightarrow>
               (article.extend a
                  (scored_article.fields (date_time e (published a)) sc) # out, w2)))"

text \<open>
  \<open>fetchAllArticles(url)\<close>: a rejected feed request is caught and gives the empty list;
  the articles without a \<open>comments\<close> text are dropped before scoring.
\<close>

definition fetchAllArticles :: "config \<Rightarrow> env \<Rightarrow> string \<Rightarrow> world \<Rightarrow> scored_article list \<times> world" where
  "fetchAllArticles cfg e url w =
     (case fetch_text e url w of
        (Rejects msg, w1) \<Rightarrow> ([], w1)
      | (Body xmlText, w1) \<Rightarrow>
          (let items = match_all_from ''item'' 0 xmlText;
               parsedArticles = filter (\<lambda>article. comments article \<noteq> [])
                                  (map parseArticleFromXml items)
           in score_articles cfg e parsedArticles w1))"

section \<open>The cache policy\<close>

text \<open>
  The three operations of the store. Each is logged, then either raises (\<open>Inl\<close> its
  message) or acts on the content. The expiry of an entry with time is the store's
  matter and not modelled: an entry stays until it is overwritten or deleted.
\<close>

definition kv_get :: "env \<Rightarrow> string \<Rightarrow> world \<Rightarrow> (string + string option) \<times> world" where
  "kv_get e key w =
     (let w1 = w\<lparr>kv_log := kv_log w @ [KvGet key]\<rparr>
      in case kv_fault e (length (kv_log w)) of
           Some msg \<Rightarrow> (Inl msg, w1)
         | None \<Rightarrow> (Inr (map_option fst (kv w key)), w1))"

definition kv_put :: "env \<Rightarrow> string \<Rightarrow> string \<Rightarrow> nat \<Rightarrow> world \<Rightarrow> (string + unit) \<times> world" where
  "kv_put e key v ttl w =
     (let w1 = w\<lparr>kv_log := kv_log w @ [KvPut key v ttl]\<rparr>
      in case kv_fault e (length (kv_log w)) of
           Some msg \<Rightarrow> (Inl msg, w1)
         | None \<Rightarrow> (Inr (), w1\<lparr>kv := (kv w)(key \<mapsto> (v, ttl))\<rparr>))"

definition kv_delete :: "env \<Rightarrow> string \<Rightarrow> world \<Rightarrow> (string + unit) \<times> world" where
  "kv_delete e key w =
     (let w1 = w\<lparr>kv_log := kv_log w @ [KvDelete key]\<rparr>
      in case kv_fault e (length (kv_log w)) of
           Some msg \<Rightarrow> (Inl msg, w1)
         | None \<Rightarrow> (Inr (), w1\<lparr>kv := (kv w)(key := None)\<rparr>))"

definition warmCache :: "config \<Rightarrow> env \<Rightarrow> world \<Rightarrow> bool \<times> world" where
  "warmCache cfg e w =
     (case fetchAllArticles cfg e (feedUrl cfg) w of
        (articles, w1) \<Rightarrow>
          (case kv_put e (cacheKey cfg) (writeArticlesFeed cfg articles) (cacheMaxAge cfg) w1 of
             (Inl msg, w2) \<Rightarrow> (False, w2)
           | (Inr u, w2) \<Rightarrow> (True, w2)))"

text \<open>The request, as \<open>new URL(request.url)\<close> presents it, and the response.\<close>

record request =
  protocol :: string
  host :: string
  pathname :: string
  searchParams :: "(string \<times> string) list"

record http_response =
  status :: nat
  body :: string
  headers :: "(string \<times> string) list"

definition has_param :: "request \<Rightarrow> string \<Rightarrow> bool" where
  "has_param req name = (name \<in> set (map fst (searchParams req)))"

definition feed_response :: "string \<Rightarrow> string \<Rightarrow> http_response" where
  "feed_response doc marker =
     \<lparr> status = 200, body = doc,
       headers = [(''Content-Type'', ''application/rss+xml; charset=utf-8''),
                  (''Cache-Control'', ''public, max-age='' @ show_nat (cacheMaxAge CONFIG)),
                  (''X-Cache'', marker)] \<rparr>"

text \<open>A response built from a string without headers is typed as plain text.\<close>

definition error_response :: http_response where
  "error_response =
     \<lparr> status = 500, body = ''Error generating RSS feed'',
       headers = [(''Content-Type'', ''text/plain;charset=UTF-8'')] \<rparr>"

text \<open>
  The \<open>try\<close> block of the handler. \<open>if (cachedFeed)\<close> takes a stored document that
  is not the empty string; an error of the store or of the pipeline is caught and
  answered with status 500.
\<close>

definition generate_and_store :: "env \<Rightarrow> world \<Rightarrow> http_response \<times> world" where
  "generate_and_store e w =
     (case fetchAllArticles CONFIG e (feedUrl CONFIG) w of
        (articles, w1) \<Rightarrow>
          (let rssFeed = writeArticlesFeed CONFIG articles
           in case kv_put e (cacheKey CONFIG) rssFeed (cacheMaxAge CONFIG) w1 of
                (Inl msg, w2) \<Rightarrow> (error_response, w2)
              | (Inr u, w2) \<Rightarrow> (feed_response rssFeed ''MISS'', w2)))"

definition serve_feed :: "env \<Rightarrow> bool \<Rightarrow> world \<Rightarrow> http_response \<times> world" where
  "serve_feed e forceRefresh w =
     (if \<not> forceRefresh
      then (case kv_get e (cacheKey CONFIG) w of
              (Inl msg, w1) \<Rightarrow> (error_response, w1)
            | (Inr cachedFeed, w1) \<Rightarrow>
                (case cachedFeed of
                   None \<Rightarrow> generate_and_store e w1
                 | Some doc \<Rightarrow>
                     if doc \<noteq> [] then (feed_response doc ''HIT'', w1)
                     else generate_and_store e w1))
      else generate_and_store e w)"

text \<open>
  The handler \<open>fetch(request, env, ctx)\<close>. The delete of \<open>/clear-cache\<close> is outside
  the \<open>try\<close> block: its error leaves the handler (\<open>Inl\<close>).
\<close>

definition worker_fetch :: "env \<Rightarrow> request \<Rightarrow> world \<Rightarrow> (string + http_response) \<times> world" where
  "worker_fetch e req w =
     (let forceRefresh = has_param req ''force_refresh'' \<or> has_param req ''clear_cache''
      in if pathname req = ''/clear-cache''
         then (case kv_delete e (cacheKey CONFIG) w of
                 (Inl msg, w1) \<Rightarrow> (Inl msg, w1)
               | (Inr u, w1) \<Rightarrow>
                   (Inr \<lparr> status = 200, body = ''Cache cleared successfully'',
                          headers = [(''Content-Type'', ''text/plain'')] \<rparr>, w1))
         else if pathname req = ''/index.xml''
         then (Inr \<lparr> status = 302, body = [],
                      headers = [(''Location'', protocol req @ ''//'' @ host req @ ''/'')] \<rparr>, w)
         else (case serve_feed e forceRefresh w of (r, w1) \<Rightarrow> (Inr r, w1)))"

definition scheduled :: "env \<Rightarrow> world \<Rightarrow> world" where
  "scheduled e w = snd (warmCache CONFIG e w)"

section \<open>Example runs\<close>

definition ex_world :: world where
  "ex_world = \<lparr> requests = 0, slept = [], kv = Map.empty, kv_log = [] \<rparr>"

definition score_body :: string where
  "score_body = ''{'' @ quoted ''score'' @ '': 15}''"

text \<open>\<open>JSON.parse\<close> on the bodies of the examples; any other text is rejected here.\<close>

definition marked_body :: string where
  "marked_body =
     ''{'' @ quoted ''score'' @ '': 15, '' @ quoted ''note'' @ '': '' @ quoted ''Throttled'' @ ''}''"

definition seven_body :: string where
  "seven_body = ''{'' @ quoted ''score'' @ '': 7}''"

definition unprintable_body :: string where
  "unprintable_body =
     ''{'' @ quoted ''score'' @ '': {'' @ quoted ''toString'' @ '': 1}}''"

definition ex_parse :: "string \<Rightarrow> string + jsval" where
  "ex_parse s =
     (if s = score_body then Inr (JObj [(''score'', JNum 15)])
      else if s = ''{}'' then Inr (JObj [])
      else if s = marked_body
        then Inr (JObj [(''score'', JNum 15), (''note'', JStr ''Throttled'')])
      else if s = seven_body then Inr (JObj [(''score'', JNum 7)])
      else if s = unprintable_body
        then Inr (JObj [(''score'', JObj [(''toString'', JNum 1)])])
      else if s = ''null'' then Inr JNull
      else Inl ''Unexpected token in JSON'')"

definition ex_env :: "(nat \<Rightarrow> string \<Rightarrow> response) \<Rightarrow> env" where
  "ex_env n = \<lparr> net = n, json_parse = ex_parse, date_time = (\<lambda>s. NaN), kv_fault = (\<lambda>k. None) \<rparr>"

definition throttled_twice :: "nat \<Rightarrow> string \<Rightarrow> response" where
  "throttled_twice n url = (if n < 2 then Body ''Throttled'' else Body score_body)"

definition always_throttled :: "nat \<Rightarrow> string \<Rightarrow> response" where
  "always_throttled n url = Body ''Rate limit exceeded''"


definition marked_json :: "nat \<Rightarrow> string \<Rightarrow> response" where
  "marked_json n url = Body marked_body"

definition network_down :: "nat \<Rightarrow> string \<Rightarrow> response" where
  "network_down n url = Rejects ''fetch failed''"



definition marked_then_seven :: "nat \<Rightarrow> string \<Rightarrow> response" where
  "marked_then_seven n url = (if n = 0 then Body marked_body else Body seven_body)"



definition ex_article :: "string \<Rightarrow> jsnum \<Rightarrow> jsnum \<Rightarrow> scored_article" where
  "ex_article name t sc =
     \<lparr> title = name, author = ''alice'', link = ''https://example.org/'' @ name,
       comments = ''https://lobste.rs/s/'' @ name, published = ''Sat, 18 Oct 2025 08:29:22 -0500'',
       guid = name, timestamp = t, score = sc \<rparr>"

definition ex_articles :: "scored_article list" where
  "ex_articles =
     [ex_article ''a'' (Num 1) (Num 15), ex_article ''b'' (Num 3) (Num 10),
      ex_article ''c'' (Num 3) (Num 20), ex_article ''d'' (Num 3) (Num 11),
      ex_article ''e'' (Num 2) NaN, ex_article ''f'' (Num 5) (Num 12)]"

definition ex_undated_between :: "scored_article list" where
  "ex_undated_between =
     [ex_article ''a'' (Num 1) (Num 15), ex_article ''u'' NaN (Num 15),
      ex_article ''b'' (Num 2) (Num 15)]"

definition ex_undated_third :: "scored_article list" where
  "ex_undated_third =
     [ex_article ''a'' (Num 1) (Num 15), ex_article ''b'' (Num 2) (Num 15),
      ex_article ''u'' NaN (Num 15), ex_article ''c'' (Num 2) (Num 15)]"

definition ex_undated_run :: "scored_article list" where
  "ex_undated_run =
     [ex_article ''a'' (Num 1) (Num 15), ex_article ''b'' (Num 3) (Num 15),
      ex_article ''u'' NaN (Num 15), ex_article ''c'' (Num 1) (Num 15),
      ex_article ''v'' NaN (Num 15), ex_article ''d'' (Num 2) (Num 15),
      ex_article ''e'' (Num 2) (Num 15)]"

definition ex_undated_first :: "scored_article list" where
  "ex_undated_first = [ex_article ''u'' NaN (Num 15), ex_article ''a'' (Num 5) (Num 15)]"

definition ex_undated_mixed :: "scored_article list" where
  "ex_undated_mixed =
     [ex_article ''a'' (Num 5) (Num 15), ex_article ''u'' NaN (Num 15),
      ex_article ''v'' NaN (Num 3), ex_article ''b'' (Num 5) (Num 15)]"

definition empty_feed :: "nat \<Rightarrow> string \<Rightarrow> response" where
  "empty_feed n url = Body ''<rss><channel></channel></rss>''"

definition root_request :: "(string \<times> string) list \<Rightarrow> request" where
  "root_request ps =
     \<lparr> protocol = ''http:'', host = ''example.com'', pathname = ''/'', searchParams = ps \<rparr>"

text \<open>The feed and the score answer of the repository's test, and the article they give.\<close>

definition test_feed :: string where
  "test_feed =
     ''<rss version='' @ quoted ''2.0'' @ ''>'' @ nl @ ''<channel>'' @ nl @
     ''<title>Lobsters</title>'' @ nl @
     ''<item>'' @ nl @
     ''<title>Test Article</title>'' @ nl @
     ''<author>testuser</author>'' @ nl @
     ''<link>https://lobste.rs/s/test/test-article</link>'' @ nl @
     ''<comments>https://lobste.rs/s/test/test-article</comments>'' @ nl @
     ''<pubDate>Sat, 18 Oct 2025 08:29:22 -0500</pubDate>'' @ nl @
     ''<guid>test-guid</guid>'' @ nl @
     ''</item>'' @ nl @ ''</channel>'' @ nl @ ''</rss>''"

definition test_net :: "nat \<Rightarrow> string \<Rightarrow> response" where
  "test_net n url =
     (if url = ''https://lobste.rs/rss'' then Body test_feed
      else if url = ''https://lobste.rs/s/test/test-article.json'' then Body score_body
      else Rejects ''Unexpected URL'')"

definition test_env :: env where
  "test_env =
     \<lparr> net = test_net, json_parse = ex_parse,
       date_time = (\<lambda>s. if s = ''Sat, 18 Oct 2025 08:29:22 -0500'' then Num 1760794162000 else NaN),
       kv_fault = (\<lambda>k. None) \<rparr>"

definition test_article :: scored_article where
  "test_article =
     \<lparr> title = ''Test Article'', author = ''testuser'',
       link = ''https://lobste.rs/s/test/test-article'',
       comments = ''https://lobste.rs/s/test/test-article'',
       published = ''Sat, 18 Oct 2025 08:29:22 -0500'', guid = ''test-guid'',
       timestamp = Num 1760794162000, score = Num 15 \<rparr>"

text \<open>A \<open>JSON.parse\<close> that rejects every body with a throttle marker.\<close>

definition parse_unmarked :: "string \<Rightarrow> string + jsval" where
  "parse_unmarked t = (if isThrottledResponse t then Inl ''Unexpected token'' else ex_parse t)"

section \<open>The order of the document\<close>

text \<open>Both timestamps are numbers and the first is not the smaller one.\<close>

definition newer_or_same :: "'a scored_article_scheme \<Rightarrow> 'a scored_article_scheme \<Rightarrow> bool" where
  "newer_or_same a b = (\<exists>ta tb. timestamp a = Num ta \<and> timestamp b = Num tb \<and> tb \<le> ta)"

text \<open>Both timestamps are numbers and the first is the smaller one.\<close>

definition older :: "'a scored_article_scheme \<Rightarrow> 'a scored_article_scheme \<Rightarrow> bool" where
  "older a b = (\<exists>ta tb. timestamp a = Num ta \<and> timestamp b = Num tb \<and> ta < tb)"

section \<open>The escaping the document format asks for\<close>

text \<open>
  The specification's side of the escaping claim: each reserved character stands for
  its entity, each other character for itself, and a reader of the document turns the
  five entities back into their characters.
\<close>

definition xml_entity :: "char \<Rightarrow> string" where
  "xml_entity c =
     (if c = CHR ''&'' then ''&amp;''
      else if c = CHR ''<'' then ''&lt;''
      else if c = CHR ''>'' then ''&gt;''
      else if c = CHR 0x22 then ''&quot;''
      else if c = CHR 0x27 then ''&#39;''
      else [c])"

fun xml_decode :: "string \<Rightarrow> string" where
  "xml_decode [] = []"
| "xml_decode (c # cs) =
     (if c = CHR ''&'' \<and> starts_with cs ''amp;'' then CHR ''&'' # xml_decode (drop 4 cs)
      else if c = CHR ''&'' \<and> starts_with cs ''lt;'' then CHR ''<'' # xml_decode (drop 3 cs)
      else if c = CHR ''&'' \<and> starts_with cs ''gt;'' then CHR ''>'' # xml_decode (drop 3 cs)
      else if c = CHR ''&'' \<and> starts_with cs ''quot;'' then CHR 0x22 # xml_decode (drop 5 cs)
      else if c = CHR ''&'' \<and> starts_with cs ''#39;'' then CHR 0x27 # xml_decode (drop 4 cs)
      else c # xml_decode cs)"

section \<open>Properties of the score fetcher\<close>

subsection \<open>\<open>parseInt\<close> reads back an integer\<close>

lemma digit_char_props:
  assumes "d < 10"
  shows "is_digit (digit_char d)" and "digit_val (digit_char d) = int d" and "\<not> is_space (digit_char d)"
    and "digit_char d \<noteq> CHR ''-''" and "digit_char d \<noteq> CHR ''+''"
proof -
  from assms have "d \<in> {0,1,2,3,4,5,6,7,8,9}" by auto
  then show "is_digit (digit_char d)" and "digit_val (digit_char d) = int d" and "\<not> is_space (digit_char d)"
    and "digit_char d \<noteq> CHR ''-''" and "digit_char d \<noteq> CHR ''+''"
    by (auto simp: digit_char_def is_digit_def digit_val_def is_space_def)
qed

lemma digits_value_snoc: "digits_value (ds @ [c]) = 10 * digits_value ds + digit_val c"
  by (simp add: digits_value_def)

lemma show_nat_digits: "list_all is_digit (show_nat n) \<and> show_nat n \<noteq> [] \<and> digits_value (show_nat n) = int n"
proof (induction n rule: show_nat.induct)
  case (1 n)
  show ?case
  proof (cases "n < 10")
    case True
    then show ?thesis
      using digit_char_props[of n] by (simp add: show_nat.simps[of n] digits_value_def)
  next
    case False
    then have ih: "list_all is_digit (show_nat (n div 10))" "show_nat (n div 10) \<noteq> []"
       "digits_value (show_nat (n div 10)) = int (n div 10)" using 1 by auto
    have m: "n mod 10 < 10" by simp
    show ?thesis using False ih digit_char_props[OF m]
      by (simp add: show_nat.simps[of n] digits_value_snoc zdiv_int zmod_int)
  qed
qed

lemma parse_digits:
  assumes "list_all is_digit ds" "ds \<noteq> []"
  shows "parse_int_str ds = Num (digits_value ds)" "parse_int_str (CHR ''-'' # ds) = Num (- digits_value ds)"
proof -
  obtain c cs where ds: "ds = c # cs" using assms(2) by (cases ds) auto
  have c: "is_digit c" using assms(1) ds by simp
  then have ns: "\<not> is_space c" "c \<noteq> CHR ''-''" "c \<noteq> CHR ''+''"
    by (auto simp: is_digit_def is_space_def)
  have tw: "takeWhile is_digit ds = ds" using assms(1) by (simp add: list_all_iff)
  show "parse_int_str ds = Num (digits_value ds)"
    using ns tw ds by (simp add: parse_int_str_def)
  have "\<not> is_space (CHR ''-'')" by (simp add: is_space_def)
  then show "parse_int_str (CHR ''-'' # ds) = Num (- digits_value ds)"
    using tw ds by (simp add: parse_int_str_def)
qed

lemma parseInt_JNum: "parseInt (JNum v) = Inr (Num v)"
  using parse_digits[of "show_nat (nat v)"] parse_digits[of "show_nat (nat (- v))"]
    show_nat_digits[of "nat v"] show_nat_digits[of "nat (- v)"]
  by (auto simp: parseInt_def show_int_def)


subsection \<open>One attempt\<close>

lemma try_fetch_score_eq:
  "try_fetch_score e url w =
     (read_score e (net e (requests w) (url @ ''.json'')), w\<lparr>requests := Suc (requests w)\<rparr>)"
  by (simp add: try_fetch_score_def fetch_text_def)

lemma read_score_throttled: "isThrottledResponse b \<Longrightarrow> read_score e (Body b) = Throttled"
  by (simp add: read_score_def)

lemma read_score_number:
  "\<not> isThrottledResponse b \<Longrightarrow> json_parse e b = Inr (JObj ps) \<Longrightarrow>
   map_of ps ''score'' = Some (JNum v) \<Longrightarrow> read_score e (Body b) = Returned (Num v)"
  by (simp add: read_score_def parseInt_JNum)





lemma convert_message_plain:
  "\<not> str_includes ''Cannot convert object to primitive value'' ''Unexpected token''"
  by simp

text \<open>An attempt that asks again, with retries left, costs one request and one sleep.\<close>

lemma fetch_score_again:
  assumes "asks_again (read_score e (net e (requests w) (url @ ''.json'')))"
    and "rc < maxRetries cfg"
  shows "fetchArticleScore cfg e url rc w =
     fetchArticleScore cfg e url (Suc rc)
       (sleep (retryDelay cfg * 2 ^ rc) (w\<lparr>requests := Suc (requests w)\<rparr>))"
  using assms
  by (subst fetchArticleScore.simps)
     (cases "read_score e (net e (requests w) (url @ ''.json''))"; simp add: try_fetch_score_eq)

lemma fetch_score_stop:
  assumes "\<not> (asks_again (read_score e (net e (requests w) (url @ ''.json''))) \<and> rc < maxRetries cfg)"
  shows "fetchArticleScore cfg e url rc w =
     (final_score (read_score e (net e (requests w) (url @ ''.json''))),
      w\<lparr>requests := Suc (requests w)\<rparr>)"
  using assms
  by (subst fetchArticleScore.simps)
     (cases "read_score e (net e (requests w) (url @ ''.json''))"; auto simp add: try_fetch_score_eq)

lemma upt_shift: "map f [rc..<rc + Suc k] = f rc # map f [Suc rc..<Suc rc + k]"
  by (simp add: upt_rec[of rc "Suc (rc + k)"] del: upt_Suc)

lemma fetch_score_retries:
  assumes "\<forall>i<k. asks_again (read_score e (net e (requests w + i) (url @ ''.json'')))"
    and "rc + k \<le> maxRetries cfg"
  shows "fetchArticleScore cfg e url rc w =
     fetchArticleScore cfg e url (rc + k)
       (w\<lparr>requests := requests w + k,
          slept := slept w @ map (\<lambda>i. retryDelay cfg * 2 ^ i) [rc..<rc + k]\<rparr>)"
  using assms
proof (induction k arbitrary: rc w)
  case 0
  show ?case by simp
next
  case (Suc k)
  let ?w1 = "sleep (retryDelay cfg * 2 ^ rc) (w\<lparr>requests := Suc (requests w)\<rparr>)"
  have first: "asks_again (read_score e (net e (requests w) (url @ ''.json'')))"
    using Suc.prems(1)[rule_format, of 0] by simp
  have lt: "rc < maxRetries cfg" using Suc.prems(2) by simp
  have req: "requests ?w1 = Suc (requests w)" "slept ?w1 = slept w @ [retryDelay cfg * 2 ^ rc]"
    by (simp_all add: sleep_def)
  have rest: "\<forall>i<k. asks_again (read_score e (net e (requests ?w1 + i) (url @ ''.json'')))"
  proof (intro allI impI)
    fix i assume "i < k"
    then show "asks_again (read_score e (net e (requests ?w1 + i) (url @ ''.json'')))"
      using Suc.prems(1)[rule_format, of "Suc i"] req(1) by simp
  qed
  have le: "Suc rc + k \<le> maxRetries cfg" using Suc.prems(2) by simp
  have "fetchArticleScore cfg e url rc w = fetchArticleScore cfg e url (Suc rc) ?w1"
    by (rule fetch_score_again[OF first lt])
  also have "\<dots> = fetchArticleScore cfg e url (Suc rc + k)
       (?w1\<lparr>requests := requests ?w1 + k,
          slept := slept ?w1 @ map (\<lambda>i. retryDelay cfg * 2 ^ i) [Suc rc..<Suc rc + k]\<rparr>)"
    by (rule Suc.IH[OF rest le])
  also have "?w1\<lparr>requests := requests ?w1 + k,
          slept := slept ?w1 @ map (\<lambda>i. retryDelay cfg * 2 ^ i) [Suc rc..<Suc rc + k]\<rparr>
       = w\<lparr>requests := requests w + Suc k,
          slept := slept w @ map (\<lambda>i. retryDelay cfg * 2 ^ i) [rc..<rc + Suc k]\<rparr>"
    by (simp only: upt_shift) (simp add: sleep_def)
  finally show ?case by simp
qed

text \<open>
  The whole run: \<open>k\<close> attempts that ask again, then the attempt that settles the
  result, either because it does not ask again or because no retry is left.
\<close>

lemma fetch_score_run:
  "\<exists>k. (k = 0 \<or> rc + k \<le> maxRetries cfg)
     \<and> (\<forall>i<k. asks_again (read_score e (net e (requests w + i) (url @ ''.json''))))
     \<and> (rc + k < maxRetries cfg \<longrightarrow>
          \<not> asks_again (read_score e (net e (requests w + k) (url @ ''.json''))))
     \<and> fetchArticleScore cfg e url rc w =
         (final_score (read_score e (net e (requests w + k) (url @ ''.json''))),
          w\<lparr>requests := requests w + Suc k,
            slept := slept w @ map (\<lambda>i. retryDelay cfg * 2 ^ i) [rc..<rc + k]\<rparr>)"
proof (induction "maxRetries cfg - rc" arbitrary: rc w)
  case 0
  then have "\<not> rc < maxRetries cfg" by simp
  then have "fetchArticleScore cfg e url rc w =
     (final_score (read_score e (net e (requests w) (url @ ''.json''))),
      w\<lparr>requests := Suc (requests w)\<rparr>)"
    by (intro fetch_score_stop) simp
  then show ?case using 0 by (intro exI[of _ 0]) simp
next
  case (Suc d)
  then have lt: "rc < maxRetries cfg" by simp
  show ?case
  proof (cases "asks_again (read_score e (net e (requests w) (url @ ''.json'')))")
    case False
    then have "fetchArticleScore cfg e url rc w =
       (final_score (read_score e (net e (requests w) (url @ ''.json''))),
        w\<lparr>requests := Suc (requests w)\<rparr>)"
      by (intro fetch_score_stop) simp
    then show ?thesis using False by (intro exI[of _ 0]) simp
  next
    case True
    let ?w1 = "sleep (retryDelay cfg * 2 ^ rc) (w\<lparr>requests := Suc (requests w)\<rparr>)"
    have req: "requests ?w1 = Suc (requests w)" "slept ?w1 = slept w @ [retryDelay cfg * 2 ^ rc]"
      by (simp_all add: sleep_def)
    have d: "d = maxRetries cfg - Suc rc" using Suc.hyps(2) by simp
    from Suc.hyps(1)[OF d, of ?w1] obtain k where
      k: "k = 0 \<or> Suc rc + k \<le> maxRetries cfg"
      and again: "\<forall>i<k. asks_again (read_score e (net e (requests ?w1 + i) (url @ ''.json'')))"
      and last: "Suc rc + k < maxRetries cfg \<longrightarrow>
          \<not> asks_again (read_score e (net e (requests ?w1 + k) (url @ ''.json'')))"
      and run: "fetchArticleScore cfg e url (Suc rc) ?w1 =
         (final_score (read_score e (net e (requests ?w1 + k) (url @ ''.json''))),
          ?w1\<lparr>requests := requests ?w1 + Suc k,
            slept := slept ?w1 @ map (\<lambda>i. retryDelay cfg * 2 ^ i) [Suc rc..<Suc rc + k]\<rparr>)"
      by blast
    have 1: "rc + Suc k \<le> maxRetries cfg" using k lt by auto
    have 2: "\<forall>i<Suc k. asks_again (read_score e (net e (requests w + i) (url @ ''.json'')))"
    proof (intro allI impI)
      fix i assume i: "i < Suc k"
      show "asks_again (read_score e (net e (requests w + i) (url @ ''.json'')))"
      proof (cases i)
        case 0 then show ?thesis using True by simp
      next
        case (Suc j)
        then show ?thesis using again[rule_format, of j] i req(1) by simp
      qed
    qed
    have 3: "rc + Suc k < maxRetries cfg \<longrightarrow>
          \<not> asks_again (read_score e (net e (requests w + Suc k) (url @ ''.json'')))"
      using last req(1) by simp
    have 4: "fetchArticleScore cfg e url rc w =
         (final_score (read_score e (net e (requests w + Suc k) (url @ ''.json''))),
          w\<lparr>requests := requests w + Suc (Suc k),
            slept := slept w @ map (\<lambda>i. retryDelay cfg * 2 ^ i) [rc..<rc + Suc k]\<rparr>)"
      using fetch_score_again[OF True lt] run
      by (simp only: upt_shift) (simp add: sleep_def)
    show ?thesis using 1 2 3 4 by (intro exI[of _ "Suc k"]) blast
  qed
qed

lemma fetch_score_effects:
  "\<exists>k. (k = 0 \<or> rc + k \<le> maxRetries cfg) \<and>
       snd (fetchArticleScore cfg e url rc w) =
         w\<lparr>requests := requests w + Suc k,
           slept := slept w @ map (\<lambda>i. retryDelay cfg * 2 ^ i) [rc..<rc + k]\<rparr>"
proof -
  from fetch_score_run[of rc cfg e w url] obtain k where
    "k = 0 \<or> rc + k \<le> maxRetries cfg"
    "fetchArticleScore cfg e url rc w =
         (final_score (read_score e (net e (requests w + k) (url @ ''.json''))),
          w\<lparr>requests := requests w + Suc k,
            slept := slept w @ map (\<lambda>i. retryDelay cfg * 2 ^ i) [rc..<rc + k]\<rparr>)"
    by blast
  then show ?thesis by (intro exI[of _ k]) simp
qed

lemma fetch_score_after_throttles:
  assumes "\<forall>i<k. \<exists>b. net e (requests w + i) (url @ ''.json'') = Body b \<and> isThrottledResponse b"
    and "net e (requests w + k) (url @ ''.json'') = Body b"
    and "\<not> isThrottledResponse b"
    and "json_parse e b = Inr (JObj ps)"
    and "map_of ps ''score'' = Some (JNum v)"
    and "rc + k \<le> maxRetries cfg"
  shows "fetchArticleScore cfg e url rc w =
     (Num v, w\<lparr>requests := requests w + Suc k,
                  slept := slept w @ map (\<lambda>i. retryDelay cfg * 2 ^ i) [rc..<rc + k]\<rparr>)"
proof -
  let ?wk = "w\<lparr>requests := requests w + k,
          slept := slept w @ map (\<lambda>i. retryDelay cfg * 2 ^ i) [rc..<rc + k]\<rparr>"
  have again: "\<forall>i<k. asks_again (read_score e (net e (requests w + i) (url @ ''.json'')))"
    using assms(1) by (auto simp: read_score_throttled)
  have last: "read_score e (net e (requests ?wk) (url @ ''.json'')) = Returned (Num v)"
    using assms(2-5) by (simp add: read_score_number)
  have "fetchArticleScore cfg e url rc w = fetchArticleScore cfg e url (rc + k) ?wk"
    by (rule fetch_score_retries[OF again assms(6)])
  also have "\<dots> = (Num v, ?wk\<lparr>requests := Suc (requests ?wk)\<rparr>)"
    using fetch_score_stop[of e ?wk url "rc + k" cfg] last by simp
  finally show ?thesis by simp
qed

lemma fetch_score_always_throttled:
  assumes "\<forall>n\<ge>requests w. \<exists>b. net e n (url @ ''.json'') = Body b \<and> isThrottledResponse b"
    and "d = maxRetries cfg - rc" and "rc \<le> maxRetries cfg"
  shows "fetchArticleScore cfg e url rc w =
     (Num 0, w\<lparr>requests := requests w + Suc d,
             slept := slept w @ map (\<lambda>i. retryDelay cfg * 2 ^ i) [rc..<maxRetries cfg]\<rparr>)"
proof -
  let ?wk = "w\<lparr>requests := requests w + d,
          slept := slept w @ map (\<lambda>i. retryDelay cfg * 2 ^ i) [rc..<rc + d]\<rparr>"
  have all: "\<And>n. requests w \<le> n \<Longrightarrow> read_score e (net e n (url @ ''.json'')) = Throttled"
    using assms(1) by (auto simp: read_score_throttled)
  have again: "\<forall>i<d. asks_again (read_score e (net e (requests w + i) (url @ ''.json'')))"
    using all by simp
  have le: "rc + d \<le> maxRetries cfg" "rc + d = maxRetries cfg" using assms(2,3) by simp_all
  have "fetchArticleScore cfg e url rc w = fetchArticleScore cfg e url (rc + d) ?wk"
    by (rule fetch_score_retries[OF again le(1)])
  also have "\<dots> = (Num 0, ?wk\<lparr>requests := Suc (requests ?wk)\<rparr>)"
    using fetch_score_stop[of e ?wk url "rc + d" cfg] all[of "requests w + d"] le(2) by simp
  finally show ?thesis using le(2) by simp
qed

lemma sum_list_backoff: "sum_list (map f [0..<k]) = (\<Sum>i<k. (f i :: nat))"
  by (simp add: interv_sum_list_conv_sum_set_nat atLeast0LessThan)

subsection \<open>Throttled \<open>k\<close> times, then a score\<close>

text \<open>
  Claim C1. When the score endpoint answers the first \<open>k\<close> requests of a fetch with a
  throttle-marker body, \<open>k < maxRetries\<close>, and the next request with a body that holds
  no marker and parses to an object whose \<open>score\<close> is the integer \<open>v\<close>, then
  \<open>fetchArticleScore\<close> returns \<open>v\<close>, has sent \<open>k + 1\<close> requests, and has slept
  exactly the delays \<open>retryDelay * 2^i\<close> for \<open>i = 0, ..., k - 1\<close>, in this order; their
  total is the sum of the first \<open>k\<close> backoff delays.
\<close>

theorem fetchArticleScore_throttled_then_score:
  assumes "k < maxRetries cfg"
    and "\<forall>i<k. \<exists>t. net e (requests w + i) (url @ ''.json'') = Body t \<and> isThrottledResponse t"
    and "net e (requests w + k) (url @ ''.json'') = Body b"
    and "\<not> isThrottledResponse b"
    and "json_parse e b = Inr (JObj ps)"
    and "map_of ps ''score'' = Some (JNum v)"
    and "\<bar>v\<bar> < 10 ^ 21"
  shows "fst (fetchArticleScore cfg e url 0 w) = Num v
    \<and> requests (snd (fetchArticleScore cfg e url 0 w)) = requests w + k + 1
    \<and> slept (snd (fetchArticleScore cfg e url 0 w))
        = slept w @ map (\<lambda>i. retryDelay cfg * 2 ^ i) [0..<k]
    \<and> sum_list (slept (snd (fetchArticleScore cfg e url 0 w)))
        = sum_list (slept w) + (\<Sum>i<k. retryDelay cfg * 2 ^ i)"
proof -
  have "0 + k \<le> maxRetries cfg" using assms(1) by simp
  from fetch_score_after_throttles[OF assms(2) assms(3) assms(4) assms(5) assms(6) this]
  show ?thesis by (simp add: sum_list_backoff)
qed

lemma throttled_markers:
  "isThrottledResponse ''Throttled''" "isThrottledResponse ''Rate limit exceeded''"
  "\<not> isThrottledResponse score_body" "\<not> isThrottledResponse ''{}''"
  by (simp_all add: isThrottledResponse_def score_body_def quoted_def)

theorem fetchArticleScore_throttled_then_score_witness:
  "(2::nat) < maxRetries CONFIG
   \<and> fst (fetchArticleScore CONFIG (ex_env throttled_twice) ''https://lobste.rs/s/abc'' 0 ex_world) = Num 15
   \<and> slept (snd (fetchArticleScore CONFIG (ex_env throttled_twice) ''https://lobste.rs/s/abc'' 0 ex_world))
       = [1000, 2000]
   \<and> requests (snd (fetchArticleScore CONFIG (ex_env throttled_twice) ''https://lobste.rs/s/abc'' 0 ex_world)) = 3"
proof -
  have 1: "(2::nat) < maxRetries CONFIG" by (simp add: CONFIG_def)
  have 2: "\<forall>i<2. \<exists>t. net (ex_env throttled_twice) (requests ex_world + i) (''https://lobste.rs/s/abc'' @ ''.json'') = Body t
             \<and> isThrottledResponse t"
    using throttled_markers(1) by (simp add: ex_env_def throttled_twice_def ex_world_def)
  have 3: "net (ex_env throttled_twice) (requests ex_world + 2) (''https://lobste.rs/s/abc'' @ ''.json'') = Body score_body"
    by (simp add: ex_env_def throttled_twice_def ex_world_def)
  have 4: "json_parse (ex_env throttled_twice) score_body = Inr (JObj [(''score'', JNum 15)])"
    by (simp add: ex_env_def ex_parse_def)
  have 5: "map_of [(''score'', JNum 15)] ''score'' = Some (JNum 15)" by simp
  have 6: "\<bar>15::int\<bar> < 10 ^ 21" by simp
  have 7: "map (\<lambda>i. retryDelay CONFIG * 2 ^ i) [0..<2] = [1000, 2000]"
    by (simp add: CONFIG_def numeral_2_eq_2)
  have 8: "slept ex_world = []" "requests ex_world = 0" by (simp_all add: ex_world_def)
  from fetchArticleScore_throttled_then_score[OF 1 2 3 throttled_markers(3) 4 5 6]
  show ?thesis using 1 by (simp only: 7 8) simp
qed

subsection \<open>Throttled on every request\<close>

text \<open>
  Claim C2, as the code has it. When the score endpoint answers every request with a
  throttle-marker body, \<open>fetchArticleScore\<close> returns 0 after \<open>maxRetries + 1\<close>
  requests: the first one and \<open>maxRetries\<close> retries, with the backoff delays
  \<open>retryDelay * 2^i\<close> for \<open>i = 0, ..., maxRetries - 1\<close> slept in between.
\<close>

theorem fetchArticleScore_always_throttled:
  assumes "\<forall>n\<ge>requests w. \<exists>t. net e n (url @ ''.json'') = Body t \<and> isThrottledResponse t"
  shows "fetchArticleScore cfg e url 0 w =
     (Num 0, w\<lparr>requests := requests w + maxRetries cfg + 1,
             slept := slept w @ map (\<lambda>i. retryDelay cfg * 2 ^ i) [0..<maxRetries cfg]\<rparr>)"
  using fetch_score_always_throttled[OF assms refl, of 0 cfg] by simp

lemma always_throttled_run:
  "\<forall>n\<ge>requests ex_world.
     \<exists>t. net (ex_env always_throttled) n (''https://lobste.rs/s/abc'' @ ''.json'') = Body t
        \<and> isThrottledResponse t"
  using throttled_markers(2) by (simp add: ex_env_def always_throttled_def)

theorem fetchArticleScore_always_throttled_witness:
  "fetchArticleScore CONFIG (ex_env always_throttled) ''https://lobste.rs/s/abc'' 0 ex_world =
     (Num 0, ex_world\<lparr>requests := 4, slept := [1000, 2000, 4000]\<rparr>)"
proof -
  have m: "map (\<lambda>i. retryDelay CONFIG * 2 ^ i) [0..<3] = [1000, 2000, 4000]"
    by (simp add: CONFIG_def numeral_3_eq_3)
  have w: "slept ex_world = []" "requests ex_world = 0" "maxRetries CONFIG = 3"
    by (simp_all add: ex_world_def CONFIG_def)
  from fetchArticleScore_always_throttled[OF always_throttled_run, of CONFIG]
  show ?thesis by (simp only: m w) simp
qed

text \<open>
  With the configuration of the program, three retries allowed, an endpoint that always
  throttles is asked four times, not three.
\<close>

theorem fetchArticleScore_attempts_counterexample:
  "maxRetries CONFIG = 3
   \<and> fst (fetchArticleScore CONFIG (ex_env always_throttled) ''https://lobste.rs/s/abc'' 0 ex_world) = Num 0
   \<and> requests (snd (fetchArticleScore CONFIG (ex_env always_throttled) ''https://lobste.rs/s/abc'' 0 ex_world))
       - requests ex_world = 4"
proof -
  have w: "requests ex_world = 0" "maxRetries CONFIG = 3"
    by (simp_all add: ex_world_def CONFIG_def)
  from fetch_score_always_throttled[OF always_throttled_run refl, of 0 CONFIG]
  show ?thesis by (simp add: w)
qed

subsection \<open>The bound on attempts and delay\<close>

text \<open>
  Claim C4. Whatever the endpoint answers, one call of \<open>fetchArticleScore\<close> returns
  after \<open>k + 1\<close> requests for some \<open>k \<le> maxRetries\<close>, having slept the first \<open>k\<close>
  backoff delays and nothing else; so the total delay it adds is at most
  \<open>retryDelay * 2^i\<close> summed over \<open>i = 0, ..., maxRetries - 1\<close>. That the call returns
  at all is the termination proof of the definition.
\<close>

theorem fetchArticleScore_bounded:
  "\<exists>k. k \<le> maxRetries cfg
     \<and> requests (snd (fetchArticleScore cfg e url 0 w)) = requests w + k + 1
     \<and> slept (snd (fetchArticleScore cfg e url 0 w))
          = slept w @ map (\<lambda>i. retryDelay cfg * 2 ^ i) [0..<k]
     \<and> sum_list (slept (snd (fetchArticleScore cfg e url 0 w)))
          \<le> sum_list (slept w) + (\<Sum>i<maxRetries cfg. retryDelay cfg * 2 ^ i)"
proof -
  from fetch_score_effects[of 0 cfg e url w]
  obtain k where k: "k = 0 \<or> 0 + k \<le> maxRetries cfg"
    and eff: "snd (fetchArticleScore cfg e url 0 w) =
         w\<lparr>requests := requests w + Suc k,
           slept := slept w @ map (\<lambda>i. retryDelay cfg * 2 ^ i) [0..<0 + k]\<rparr>"
    by blast
  have le: "k \<le> maxRetries cfg" using k by auto
  then have "{..<k} \<subseteq> {..<maxRetries cfg}" by auto
  then have "(\<Sum>i<k. retryDelay cfg * 2 ^ i) \<le> (\<Sum>i<maxRetries cfg. retryDelay cfg * 2 ^ i)"
    by (intro sum_mono2) auto
  then show ?thesis
    using le eff by (intro exI[of _ k]) (simp add: sum_list_backoff)
qed

subsection \<open>The marker check comes before the parse\<close>

lemma read_score_parse_irrelevant:
  assumes "\<forall>t. \<not> isThrottledResponse t \<longrightarrow> p t = json_parse e t"
  shows "read_score (e\<lparr>json_parse := p\<rparr>) r = read_score e r"
  using assms by (cases r) (simp_all add: read_score_def)

lemma fetch_score_same_attempts:
  assumes "\<And>v. try_fetch_score e' url v = try_fetch_score e url v"
  shows "fetchArticleScore cfg e' url rc w = fetchArticleScore cfg e url rc w"
proof (induction "maxRetries cfg - rc" arbitrary: rc w)
  case 0
  then show ?case
    by (subst fetchArticleScore.simps, subst (2) fetchArticleScore.simps)
       (simp add: assms split: prod.split attempt.split)
next
  case (Suc d)
  then have "\<And>v. fetchArticleScore cfg e' url (Suc rc) v = fetchArticleScore cfg e url (Suc rc) v"
    by simp
  then show ?case
    by (subst fetchArticleScore.simps, subst (2) fetchArticleScore.simps)
       (simp add: assms split: prod.split attempt.split)
qed

text \<open>
  Claim C10. Let the first \<open>k\<close> answers of a fetch hold a throttle marker, each of them
  valid JSON with a \<open>score\<close>. Each carries a score that \<open>parseInt\<close> would read, and
  each is classified as throttled all the same, none is parsed: while
  \<open>k \<le> maxRetries\<close> the call has then sent \<open>k\<close> requests, slept the backoff delays
  \<open>retryDelay * 2^i\<close> for \<open>i < k\<close>, and goes on as the call with \<open>retryCount = k\<close>
  does; with \<open>k = maxRetries + 1\<close> it has used up its retries and returns 0. What a body
  with a marker parses to has no influence on the result or on the effects: another
  \<open>JSON.parse\<close> that agrees on the bodies without a marker gives the same run.
\<close>

theorem fetchArticleScore_marker_precedence:
  assumes "\<forall>i<k. \<exists>b ps v. net e (requests w + i) (url @ ''.json'') = Body b
             \<and> isThrottledResponse b \<and> json_parse e b = Inr (JObj ps)
             \<and> map_of ps ''score'' = Some (JNum v)"
  shows "(\<forall>i<k. \<exists>b ps v. net e (requests w + i) (url @ ''.json'') = Body b
             \<and> json_parse e b = Inr (JObj ps) \<and> get_score (JObj ps) = Inr (JNum v)
             \<and> parseInt (JNum v) = Inr (Num v) \<and> read_score e (Body b) = Throttled)
    \<and> (k \<le> maxRetries cfg \<longrightarrow>
         fetchArticleScore cfg e url 0 w =
           fetchArticleScore cfg e url k
             (w\<lparr>requests := requests w + k,
                slept := slept w @ map (\<lambda>i. retryDelay cfg * 2 ^ i) [0..<k]\<rparr>))
    \<and> (k = maxRetries cfg + 1 \<longrightarrow>
         fetchArticleScore cfg e url 0 w =
           (Num 0, w\<lparr>requests := requests w + maxRetries cfg + 1,
                     slept := slept w @ map (\<lambda>i. retryDelay cfg * 2 ^ i) [0..<maxRetries cfg]\<rparr>))
    \<and> (\<forall>p. (\<forall>t. \<not> isThrottledResponse t \<longrightarrow> p t = json_parse e t) \<longrightarrow>
           fetchArticleScore cfg (e\<lparr>json_parse := p\<rparr>) url 0 w = fetchArticleScore cfg e url 0 w)"
proof (intro conjI impI allI)
  show "\<exists>b ps v. net e (requests w + i) (url @ ''.json'') = Body b
             \<and> json_parse e b = Inr (JObj ps) \<and> get_score (JObj ps) = Inr (JNum v)
             \<and> parseInt (JNum v) = Inr (Num v) \<and> read_score e (Body b) = Throttled"
    if "i < k" for i
  proof -
    from assms that obtain b ps v where "net e (requests w + i) (url @ ''.json'') = Body b"
      "isThrottledResponse b" "json_parse e b = Inr (JObj ps)" "map_of ps ''score'' = Some (JNum v)"
      by blast
    then show ?thesis
      by (intro exI[of _ b] exI[of _ ps] exI[of _ v]) (simp add: parseInt_JNum read_score_throttled)
  qed
  have thr: "read_score e (net e (requests w + i) (url @ ''.json'')) = Throttled" if "i < k" for i
    using assms that by (auto simp: read_score_throttled)
  then have again: "\<forall>i<k. asks_again (read_score e (net e (requests w + i) (url @ ''.json'')))"
    by simp
  show "fetchArticleScore cfg e url 0 w =
           fetchArticleScore cfg e url k
             (w\<lparr>requests := requests w + k,
                slept := slept w @ map (\<lambda>i. retryDelay cfg * 2 ^ i) [0..<k]\<rparr>)"
    if "k \<le> maxRetries cfg"
    using fetch_score_retries[OF again, of 0 cfg] that by simp
  show "fetchArticleScore cfg e url 0 w =
           (Num 0, w\<lparr>requests := requests w + maxRetries cfg + 1,
                     slept := slept w @ map (\<lambda>i. retryDelay cfg * 2 ^ i) [0..<maxRetries cfg]\<rparr>)"
    if k: "k = maxRetries cfg + 1"
  proof -
    let ?wk = "w\<lparr>requests := requests w + maxRetries cfg,
          slept := slept w @ map (\<lambda>i. retryDelay cfg * 2 ^ i) [0..<0 + maxRetries cfg]\<rparr>"
    have first: "\<forall>i<maxRetries cfg. asks_again (read_score e (net e (requests w + i) (url @ ''.json'')))"
      using again k by simp
    have last: "read_score e (net e (requests ?wk) (url @ ''.json'')) = Throttled"
      using thr[of "maxRetries cfg"] k by simp
    have "fetchArticleScore cfg e url 0 w = fetchArticleScore cfg e url (0 + maxRetries cfg) ?wk"
      by (rule fetch_score_retries[OF first]) simp
    also have "\<dots> = (Num 0, ?wk\<lparr>requests := Suc (requests ?wk)\<rparr>)"
      using fetch_score_stop[of e ?wk url "0 + maxRetries cfg" cfg] last by simp
    finally show ?thesis by simp
  qed
  show "fetchArticleScore cfg (e\<lparr>json_parse := p\<rparr>) url 0 w = fetchArticleScore cfg e url 0 w"
    if "\<forall>t. \<not> isThrottledResponse t \<longrightarrow> p t = json_parse e t" for p
    by (rule fetch_score_same_attempts)
       (simp add: try_fetch_score_eq read_score_parse_irrelevant[OF that])
qed

lemma throttled_markers_more:
  "isThrottledResponse marked_body" "\<not> isThrottledResponse seven_body"
  "\<not> isThrottledResponse unprintable_body" "\<not> isThrottledResponse ''null''"
  by (simp_all add: isThrottledResponse_def marked_body_def seven_body_def unprintable_body_def
      quoted_def)

lemma ex_parse_bodies:
  "ex_parse marked_body = Inr (JObj [(''score'', JNum 15), (''note'', JStr ''Throttled'')])"
  "ex_parse seven_body = Inr (JObj [(''score'', JNum 7)])"
  "ex_parse unprintable_body = Inr (JObj [(''score'', JObj [(''toString'', JNum 1)])])"
  "ex_parse ''null'' = Inr JNull" "ex_parse ''{}'' = Inr (JObj [])"
  "ex_parse score_body = Inr (JObj [(''score'', JNum 15)])"
  by (simp_all add: ex_parse_def marked_body_def seven_body_def unprintable_body_def score_body_def
      quoted_def)

theorem fetchArticleScore_marker_precedence_witness:
  "json_parse (ex_env marked_json) marked_body
       = Inr (JObj [(''score'', JNum 15), (''note'', JStr ''Throttled'')])
   \<and> fetchArticleScore CONFIG (ex_env marked_json) ''https://lobste.rs/s/abc'' 0 ex_world
       = (Num 0, ex_world\<lparr>requests := 4, slept := [1000, 2000, 4000]\<rparr>)
   \<and> fetchArticleScore CONFIG (ex_env marked_then_seven) ''https://lobste.rs/s/abc'' 0 ex_world
       = (Num 7, ex_world\<lparr>requests := 2, slept := [1000]\<rparr>)
   \<and> fetchArticleScore CONFIG ((ex_env marked_json)\<lparr>json_parse := parse_unmarked\<rparr>)
         ''https://lobste.rs/s/abc'' 0 ex_world
       = (Num 0, ex_world\<lparr>requests := 4, slept := [1000, 2000, 4000]\<rparr>)"
proof -
  let ?u = "''https://lobste.rs/s/abc''"
  have p: "json_parse (ex_env marked_json) marked_body
       = Inr (JObj [(''score'', JNum 15), (''note'', JStr ''Throttled'')])"
    "json_parse (ex_env marked_then_seven) marked_body
       = Inr (JObj [(''score'', JNum 15), (''note'', JStr ''Throttled'')])"
    by (simp_all add: ex_env_def ex_parse_bodies)
  have w: "slept ex_world = []" "requests ex_world = 0" "maxRetries CONFIG = 3"
    by (simp_all add: ex_world_def CONFIG_def)
  have m: "map (\<lambda>i. retryDelay CONFIG * 2 ^ i) [0..<3] = [1000, 2000, 4000]"
    "map (\<lambda>i. retryDelay CONFIG * 2 ^ i) [0..<1] = [1000]"
    by (simp_all add: CONFIG_def numeral_3_eq_3)
  have sc: "map_of [(''score'', JNum 15), (''note'', JStr ''Throttled'')] ''score'' = Some (JNum 15)"
    by simp
  have all: "\<forall>i<4. \<exists>b ps v. net (ex_env marked_json) (requests ex_world + i) (?u @ ''.json'') = Body b
             \<and> isThrottledResponse b \<and> json_parse (ex_env marked_json) b = Inr (JObj ps)
             \<and> map_of ps ''score'' = Some (JNum v)"
  proof (intro allI impI)
    fix i :: nat
    have "net (ex_env marked_json) (requests ex_world + i) (?u @ ''.json'') = Body marked_body"
      by (simp add: ex_env_def marked_json_def)
    then show "\<exists>b ps v. net (ex_env marked_json) (requests ex_world + i) (?u @ ''.json'') = Body b
             \<and> isThrottledResponse b \<and> json_parse (ex_env marked_json) b = Inr (JObj ps)
             \<and> map_of ps ''score'' = Some (JNum v)"
      using throttled_markers_more(1) p(1) sc by blast
  qed
  have one: "\<forall>i<1. \<exists>b ps v. net (ex_env marked_then_seven) (requests ex_world + i) (?u @ ''.json'') = Body b
             \<and> isThrottledResponse b \<and> json_parse (ex_env marked_then_seven) b = Inr (JObj ps)
             \<and> map_of ps ''score'' = Some (JNum v)"
  proof (intro allI impI)
    fix i :: nat assume "i < 1"
    then have "net (ex_env marked_then_seven) (requests ex_world + i) (?u @ ''.json'') = Body marked_body"
      by (simp add: ex_env_def marked_then_seven_def ex_world_def)
    then show "\<exists>b ps v. net (ex_env marked_then_seven) (requests ex_world + i) (?u @ ''.json'') = Body b
             \<and> isThrottledResponse b \<and> json_parse (ex_env marked_then_seven) b = Inr (JObj ps)
             \<and> map_of ps ''score'' = Some (JNum v)"
      using throttled_markers_more(1) p(2) sc by blast
  qed
  note all_marked = fetchArticleScore_marker_precedence[OF all, of CONFIG]
  have "4 = maxRetries CONFIG + 1 \<longrightarrow>
         fetchArticleScore CONFIG (ex_env marked_json) ?u 0 ex_world =
           (Num 0, ex_world\<lparr>requests := requests ex_world + maxRetries CONFIG + 1,
                     slept := slept ex_world @ map (\<lambda>i. retryDelay CONFIG * 2 ^ i) [0..<maxRetries CONFIG]\<rparr>)"
    using all_marked by (elim conjE)
  then have a: "fetchArticleScore CONFIG (ex_env marked_json) ?u 0 ex_world
       = (Num 0, ex_world\<lparr>requests := 4, slept := [1000, 2000, 4000]\<rparr>)"
    by (simp only: m w) simp
  have agree: "\<forall>t. \<not> isThrottledResponse t \<longrightarrow> parse_unmarked t = json_parse (ex_env marked_json) t"
    by (simp add: parse_unmarked_def ex_env_def)
  have "\<forall>p. (\<forall>t. \<not> isThrottledResponse t \<longrightarrow> p t = json_parse (ex_env marked_json) t) \<longrightarrow>
           fetchArticleScore CONFIG ((ex_env marked_json)\<lparr>json_parse := p\<rparr>) ?u 0 ex_world
           = fetchArticleScore CONFIG (ex_env marked_json) ?u 0 ex_world"
    using all_marked by (elim conjE)
  then have b: "fetchArticleScore CONFIG ((ex_env marked_json)\<lparr>json_parse := parse_unmarked\<rparr>) ?u 0 ex_world
       = fetchArticleScore CONFIG (ex_env marked_json) ?u 0 ex_world"
    using agree by blast
  note first_marked = fetchArticleScore_marker_precedence[OF one, of CONFIG]
  have "1 \<le> maxRetries CONFIG \<longrightarrow>
         fetchArticleScore CONFIG (ex_env marked_then_seven) ?u 0 ex_world =
           fetchArticleScore CONFIG (ex_env marked_then_seven) ?u 1
             (ex_world\<lparr>requests := requests ex_world + 1,
                slept := slept ex_world @ map (\<lambda>i. retryDelay CONFIG * 2 ^ i) [0..<1]\<rparr>)"
    using first_marked by (elim conjE)
  then have c1: "fetchArticleScore CONFIG (ex_env marked_then_seven) ?u 0 ex_world =
           fetchArticleScore CONFIG (ex_env marked_then_seven) ?u 1
             (ex_world\<lparr>requests := 1, slept := [1000]\<rparr>)"
    by (simp only: m w) simp
  have seven: "read_score (ex_env marked_then_seven)
                 (net (ex_env marked_then_seven) (requests (ex_world\<lparr>requests := 1, slept := [1000]\<rparr>))
                    (?u @ ''.json'')) = Returned (Num 7)"
    using read_score_number[of seven_body "ex_env marked_then_seven" "[(''score'', JNum 7)]" 7]
      throttled_markers_more(2)
    by (simp add: ex_env_def marked_then_seven_def ex_parse_bodies)
  have c2: "fetchArticleScore CONFIG (ex_env marked_then_seven) ?u 1
             (ex_world\<lparr>requests := 1, slept := [1000]\<rparr>)
            = (Num 7, ex_world\<lparr>requests := 2, slept := [1000]\<rparr>)"
    using fetch_score_stop[of "ex_env marked_then_seven" "ex_world\<lparr>requests := 1, slept := [1000]\<rparr>"
        ?u 1 CONFIG] seven by simp
  show ?thesis using p(1) a b c1 c2 by simp
qed

subsection \<open>What the fetcher returns\<close>







section \<open>Properties of the serialization\<close>

lemma replace_all_append: "replace_all c r (xs @ ys) = replace_all c r xs @ replace_all c r ys"
  by (simp add: replace_all_def)

lemma escapeXml_Cons: "escapeXml (x # s) = escapeXml [x] @ escapeXml s"
proof -
  have "\<And>c r. replace_all c r (x # s) = replace_all c r [x] @ replace_all c r s"
    by (simp add: replace_all_def)
  then show ?thesis by (simp add: escapeXml_def replace_all_append)
qed

lemma escapeXml_single: "escapeXml [x] = xml_entity x"
  by (simp add: escapeXml_def replace_all_def xml_entity_def)

lemma escapeXml_entities: "escapeXml s = concat (map xml_entity s)"
proof (induction s)
  case Nil
  show ?case by (simp add: escapeXml_def replace_all_def)
next
  case (Cons x s)
  then show ?case using escapeXml_Cons[of x s] by (simp add: escapeXml_single)
qed

lemma xml_decode_entity: "xml_decode (xml_entity x @ rest) = x # xml_decode rest"
  by (simp add: xml_entity_def)

lemma xml_decode_entities: "xml_decode (concat (map xml_entity s)) = s"
  by (induction s) (simp_all add: xml_decode_entity del: xml_decode.simps(2))

text \<open>
  Claim C7. \<open>escapeXml\<close> replaces each character of its argument by that character's
  entity, reserved characters by \<open>&amp;\<close>, \<open>&lt;\<close>, \<open>&gt;\<close>, \<open>&quot;\<close>, \<open>&#39;\<close>
  and every other character by itself: the five passes never escape what an earlier pass
  wrote, the result holds none of \<open><\<close>, \<open>>\<close>, the two quotes, and decoding it gives
  the argument back. \<open>generateRssItem\<close> writes title, author, link, comments (twice)
  and guid escaped in this way, and the published text as it is.
\<close>

theorem generateRssItem_escapes:
  "escapeXml s = concat (map xml_entity s)
   \<and> xml_decode (escapeXml s) = s
   \<and> set (escapeXml s) \<inter> {CHR ''<'', CHR ''>'', CHR 0x22, CHR 0x27} = {}
   \<and> escapeXml ''&'' = ''&amp;''
   \<and> generateRssItem a =
       tab @ ''<item>'' @ nl @
       tab @ tab @ ''<title>'' @ concat (map xml_entity (title a)) @ ''</title>'' @ nl @
       tab @ tab @ ''<author>'' @ concat (map xml_entity (author a)) @ ''</author>'' @ nl @
       tab @ tab @ ''<link>'' @ concat (map xml_entity (link a)) @ ''</link>'' @ nl @
       tab @ tab @ ''<comments>'' @ concat (map xml_entity (comments a)) @ ''</comments>'' @ nl @
       tab @ tab @ ''<wfw:commentRss>'' @ concat (map xml_entity (comments a)) @ ''</wfw:commentRss>'' @ nl @
       tab @ tab @ ''<guid isPermaLink='' @ quoted ''false'' @ ''>'' @ concat (map xml_entity (guid a)) @ ''</guid>'' @ nl @
       tab @ tab @ ''<pubDate>'' @ published a @ ''</pubDate>'' @ nl @
       tab @ ''</item>''"
proof (intro conjI)
  show "escapeXml s = concat (map xml_entity s)" by (rule escapeXml_entities)
  show "xml_decode (escapeXml s) = s" by (simp only: escapeXml_entities xml_decode_entities)
  have "\<And>x. set (xml_entity x) \<inter> {CHR ''<'', CHR ''>'', CHR 0x22, CHR 0x27} = {}"
    by (simp add: xml_entity_def)
  then show "set (escapeXml s) \<inter> {CHR ''<'', CHR ''>'', CHR 0x22, CHR 0x27} = {}"
    by (simp only: escapeXml_entities set_concat set_map) blast
  show "escapeXml ''&'' = ''&amp;''" by (simp add: escapeXml_single xml_entity_def)
  show "generateRssItem a =
       tab @ ''<item>'' @ nl @
       tab @ tab @ ''<title>'' @ concat (map xml_entity (title a)) @ ''</title>'' @ nl @
       tab @ tab @ ''<author>'' @ concat (map xml_entity (author a)) @ ''</author>'' @ nl @
       tab @ tab @ ''<link>'' @ concat (map xml_entity (link a)) @ ''</link>'' @ nl @
       tab @ tab @ ''<comments>'' @ concat (map xml_entity (comments a)) @ ''</comments>'' @ nl @
       tab @ tab @ ''<wfw:commentRss>'' @ concat (map xml_entity (comments a)) @ ''</wfw:commentRss>'' @ nl @
       tab @ tab @ ''<guid isPermaLink='' @ quoted ''false'' @ ''>'' @ concat (map xml_entity (guid a)) @ ''</guid>'' @ nl @
       tab @ tab @ ''<pubDate>'' @ published a @ ''</pubDate>'' @ nl @
       tab @ ''</item>''"
    by (simp only: generateRssItem_def escapeXml_entities)
qed

section \<open>Properties of filtering and sorting\<close>

subsection \<open>The sort rearranges and does nothing else\<close>

lemma mset_binary_insert: "mset (binary_insert cmp x s) = add_mset x (mset s)"
proof -
  have "mset (take p s) + mset (drop p s) = mset s" for p
    by (metis append_take_drop_id mset_append)
  then show ?thesis by (simp add: binary_insert_def Let_def add.commute add.left_commute)
qed

lemma mset_insert_all:
  "mset (foldl (\<lambda>front pivot. binary_insert cmp pivot front) run rest) = mset run + mset rest"
  by (induction rest arbitrary: run) (simp_all add: mset_binary_insert)

lemma mset_array_sort: "mset (array_sort cmp xs) = mset xs"
proof (cases xs)
  case Nil
  then show ?thesis by (simp add: array_sort_def)
next
  case (Cons x0 ys)
  show ?thesis
  proof (cases ys)
    case Nil
    then show ?thesis using Cons by (simp add: array_sort_def)
  next
    case (Cons x1 rest)
    have "mset (take n xs) + mset (drop n xs) = mset xs" for n
      by (metis append_take_drop_id mset_append)
    then show ?thesis
      using \<open>xs = x0 # ys\<close> Cons
      by (simp add: array_sort_def Let_def mset_insert_all del: take_Suc_Cons drop_Suc_Cons)
  qed
qed

lemma set_array_sort: "set (array_sort cmp xs) = set xs"
  using mset_array_sort[of cmp xs] by (metis set_mset_mset)

subsection \<open>Nothing compares negative: nothing moves\<close>

lemma run_length_from_all:
  assumes "\<forall>x\<in>set (previous # rest). \<forall>z\<in>set (previous # rest). \<not> is_negative (cmp x z)"
  shows "run_length_from cmp False previous rest = length rest"
  using assms by (induction rest arbitrary: previous) simp_all

lemma array_sort_unmoved:
  assumes "\<forall>x\<in>set xs. \<forall>z\<in>set xs. \<not> is_negative (cmp x z)"
  shows "array_sort cmp xs = xs"
proof (cases xs)
  case Nil
  then show ?thesis by (simp add: array_sort_def)
next
  case (Cons x0 ys)
  show ?thesis
  proof (cases ys)
    case Nil
    then show ?thesis using Cons by (simp add: array_sort_def)
  next
    case (Cons x1 rest)
    have xs: "xs = x0 # x1 # rest" using \<open>xs = x0 # ys\<close> Cons by simp
    have up: "\<not> is_negative (cmp x1 x0)" using assms xs by simp
    have "\<forall>x\<in>set (x1 # rest). \<forall>z\<in>set (x1 # rest). \<not> is_negative (cmp x z)"
      using assms xs by simp
    then have "run_length_from cmp False x1 rest = length rest"
      by (rule run_length_from_all)
    then show ?thesis using up xs by (simp add: array_sort_def)
  qed
qed

subsection \<open>The binary search on a sorted front\<close>

lemma insertion_point_spec:
  assumes "\<And>i j. i \<le> j \<Longrightarrow> j < length s \<Longrightarrow> is_negative (cmp x (s ! i)) \<Longrightarrow> is_negative (cmp x (s ! j))"
    and "left \<le> right" and "right \<le> length s"
    and "\<forall>i<left. \<not> is_negative (cmp x (s ! i))"
    and "\<forall>i. right \<le> i \<and> i < length s \<longrightarrow> is_negative (cmp x (s ! i))"
  shows "insertion_point cmp x s left right \<le> length s
    \<and> (\<forall>i<insertion_point cmp x s left right. \<not> is_negative (cmp x (s ! i)))
    \<and> (\<forall>i. insertion_point cmp x s left right \<le> i \<and> i < length s \<longrightarrow> is_negative (cmp x (s ! i)))"
  using assms
proof (induction cmp x s left right rule: insertion_point.induct)
  case (1 cmp pivot xs left right)
  let ?mid = "left + (right - left) div 2"
  show ?case
  proof (cases "left < right")
    case False
    then have "insertion_point cmp pivot xs left right = left"
      by (subst insertion_point.simps) simp
    moreover have "left = right" using False "1.prems"(2) by simp
    ultimately show ?thesis using "1.prems"(3,4,5) by simp
  next
    case True
    then have mid: "left \<le> ?mid" "?mid < right" by auto
    show ?thesis
    proof (cases "is_negative (cmp pivot (xs ! ?mid))")
      case neg: True
      have eq: "insertion_point cmp pivot xs left right = insertion_point cmp pivot xs left ?mid"
        using True neg by (subst insertion_point.simps) simp
      have above: "\<forall>i. ?mid \<le> i \<and> i < length xs \<longrightarrow> is_negative (cmp pivot (xs ! i))"
        using "1.prems"(1)[of ?mid] neg by blast
      have le: "left \<le> ?mid" "?mid \<le> length xs" using mid "1.prems"(3) by simp_all
      show ?thesis
        unfolding eq
        by (rule "1.IH"(1)[OF True neg "1.prems"(1) le "1.prems"(4) above])
    next
      case pos: False
      have eq: "insertion_point cmp pivot xs left right = insertion_point cmp pivot xs (Suc ?mid) right"
        using True pos by (subst insertion_point.simps) simp
      have below: "\<forall>i<Suc ?mid. \<not> is_negative (cmp pivot (xs ! i))"
      proof (intro allI impI)
        fix i assume i: "i < Suc ?mid"
        show "\<not> is_negative (cmp pivot (xs ! i))"
        proof
          assume "is_negative (cmp pivot (xs ! i))"
          moreover have "i \<le> ?mid" "?mid < length xs" using i mid "1.prems"(3) by simp_all
          ultimately have "is_negative (cmp pivot (xs ! ?mid))"
            using "1.prems"(1)[of i ?mid] by blast
          then show False using pos by simp
        qed
      qed
      have le: "Suc ?mid \<le> right" using mid by simp
      show ?thesis
        unfolding eq
        by (rule "1.IH"(2)[OF True pos "1.prems"(1) le "1.prems"(3) below "1.prems"(5)])
    qed
  qed
qed

lemma binary_insert_split:
  assumes "\<And>i j. i \<le> j \<Longrightarrow> j < length s \<Longrightarrow> is_negative (cmp x (s ! i)) \<Longrightarrow> is_negative (cmp x (s ! j))"
  shows "\<exists>p\<le>length s. binary_insert cmp x s = take p s @ x # drop p s
           \<and> (\<forall>a\<in>set (take p s). \<not> is_negative (cmp x a))
           \<and> (\<forall>b\<in>set (drop p s). is_negative (cmp x b))"
proof -
  let ?p = "insertion_point cmp x s 0 (length s)"
  have "?p \<le> length s \<and> (\<forall>i<?p. \<not> is_negative (cmp x (s ! i)))
    \<and> (\<forall>i. ?p \<le> i \<and> i < length s \<longrightarrow> is_negative (cmp x (s ! i)))"
    by (rule insertion_point_spec[of s cmp x 0 "length s"]) (use assms in blast, auto)
  then have spec: "?p \<le> length s" "\<forall>i<?p. \<not> is_negative (cmp x (s ! i))"
    "\<forall>i. ?p \<le> i \<and> i < length s \<longrightarrow> is_negative (cmp x (s ! i))"
    by blast+
  have 1: "\<forall>a\<in>set (take ?p s). \<not> is_negative (cmp x a)"
    using spec(1,2) by (auto simp: in_set_conv_nth)
  have 2: "\<forall>b\<in>set (drop ?p s). is_negative (cmp x b)"
    using spec(1,3) by (auto simp: in_set_conv_nth)
  show ?thesis
    using spec(1) 1 2 by (intro exI[of _ ?p]) (simp add: binary_insert_def Let_def)
qed

subsection \<open>Dated articles: sorted and stable\<close>

lemma by_timestamp_desc_negative:
  "is_negative (by_timestamp_desc x z) \<longleftrightarrow>
     (\<exists>tx tz. timestamp x = Num tx \<and> timestamp z = Num tz \<and> tz < tx)"
  by (cases "timestamp x"; cases "timestamp z") (simp_all add: is_negative_def by_timestamp_desc_def)

lemma newer_or_same_trans: "newer_or_same a b \<Longrightarrow> newer_or_same b c \<Longrightarrow> newer_or_same a c"
  by (auto simp: newer_or_same_def)

lemma dated: "timestamp a \<noteq> NaN \<Longrightarrow> \<exists>t. timestamp a = Num t"
  by (cases "timestamp a") auto

lemma negatives_at_the_end:
  assumes "sorted_wrt newer_or_same s" and "i \<le> j" and "j < length s"
    and "is_negative (by_timestamp_desc x (s ! i))"
  shows "is_negative (by_timestamp_desc x (s ! j))"
proof (cases "i = j")
  case True
  then show ?thesis using assms(4) by simp
next
  case False
  then have "newer_or_same (s ! i) (s ! j)"
    using assms(1-3) by (simp add: sorted_wrt_nth_less)
  then show ?thesis using assms(4) by (auto simp: by_timestamp_desc_negative newer_or_same_def)
qed

lemma binary_insert_dated:
  assumes "sorted_wrt newer_or_same s" and "timestamp x \<noteq> NaN"
    and "\<forall>y\<in>set s. timestamp y \<noteq> NaN"
  shows "sorted_wrt newer_or_same (binary_insert by_timestamp_desc x s)"
    and "filter (\<lambda>a. timestamp a = t) (binary_insert by_timestamp_desc x s)
         = filter (\<lambda>a. timestamp a = t) s @ (if timestamp x = t then [x] else [])"
proof -
  from binary_insert_split[of s by_timestamp_desc x] negatives_at_the_end[OF assms(1)]
  obtain p where p: "p \<le> length s"
    and ins: "binary_insert by_timestamp_desc x s = take p s @ x # drop p s"
    and before: "\<forall>a\<in>set (take p s). \<not> is_negative (by_timestamp_desc x a)"
    and after: "\<forall>b\<in>set (drop p s). is_negative (by_timestamp_desc x b)"
    by blast
  obtain tx where tx: "timestamp x = Num tx" using dated[OF assms(2)] by blast
  have "sorted_wrt newer_or_same (take p s @ drop p s)" using assms(1) by simp
  then have sorted_parts: "sorted_wrt newer_or_same (take p s)" "sorted_wrt newer_or_same (drop p s)"
    "\<forall>a\<in>set (take p s). \<forall>b\<in>set (drop p s). newer_or_same a b"
    unfolding sorted_wrt_append by blast+
  have ax: "\<forall>a\<in>set (take p s). newer_or_same a x"
  proof
    fix a assume a: "a \<in> set (take p s)"
    then have "a \<in> set s" by (rule in_set_takeD)
    then obtain ta where "timestamp a = Num ta" using assms(3) dated by blast
    then show "newer_or_same a x" using before a tx
      by (auto simp: by_timestamp_desc_negative newer_or_same_def)
  qed
  have xb: "\<forall>b\<in>set (drop p s). newer_or_same x b \<and> timestamp b \<noteq> timestamp x"
    using after tx by (auto simp: by_timestamp_desc_negative newer_or_same_def)
  show "sorted_wrt newer_or_same (binary_insert by_timestamp_desc x s)"
    using sorted_parts ax xb by (simp add: ins sorted_wrt_append)
  have "filter (\<lambda>a. timestamp a = t) (drop p s) = []" if "timestamp x = t"
    using xb that by (auto simp: filter_empty_conv)
  moreover have "filter (\<lambda>a. timestamp a = t) s
        = filter (\<lambda>a. timestamp a = t) (take p s) @ filter (\<lambda>a. timestamp a = t) (drop p s)"
    by (simp only: filter_append[symmetric] append_take_drop_id)
  ultimately show "filter (\<lambda>a. timestamp a = t) (binary_insert by_timestamp_desc x s)
         = filter (\<lambda>a. timestamp a = t) s @ (if timestamp x = t then [x] else [])"
    by (simp add: ins)
qed

lemma insert_all_dated:
  assumes "sorted_wrt newer_or_same run" and "\<forall>y\<in>set (run @ rest). timestamp y \<noteq> NaN"
  shows "sorted_wrt newer_or_same (foldl (\<lambda>front pivot. binary_insert by_timestamp_desc pivot front) run rest)
    \<and> filter (\<lambda>a. timestamp a = t) (foldl (\<lambda>front pivot. binary_insert by_timestamp_desc pivot front) run rest)
       = filter (\<lambda>a. timestamp a = t) run @ filter (\<lambda>a. timestamp a = t) rest"
  using assms
proof (induction rest arbitrary: run)
  case Nil
  then show ?case by simp
next
  case (Cons x rest)
  let ?run = "binary_insert by_timestamp_desc x run"
  have x: "timestamp x \<noteq> NaN" and run: "\<forall>y\<in>set run. timestamp y \<noteq> NaN"
    using Cons.prems(2) by simp_all
  have set: "set ?run = insert x (set run)"
    using mset_binary_insert[of by_timestamp_desc x run] by (metis set_mset_add_mset_insert set_mset_mset)
  have 1: "sorted_wrt newer_or_same ?run"
    by (rule binary_insert_dated(1)[OF Cons.prems(1) x run])
  have 2: "\<forall>y\<in>set (?run @ rest). timestamp y \<noteq> NaN"
    using Cons.prems(2) set by simp
  show ?case
    using Cons.IH[OF 1 2] binary_insert_dated(2)[OF Cons.prems(1) x run, of t] by simp
qed

text \<open>The run at the start: in order as it stands, or strictly against the order.\<close>

lemma ascending_run:
  assumes "\<forall>y\<in>set (previous # rest). timestamp y \<noteq> NaN"
  shows "sorted_wrt newer_or_same
           (previous # take (run_length_from by_timestamp_desc False previous rest) rest)"
  using assms
proof (induction rest arbitrary: previous)
  case Nil
  then show ?case by simp
next
  case (Cons current rest)
  show ?case
  proof (cases "is_negative (by_timestamp_desc current previous)")
    case True
    then show ?thesis by simp
  next
    case False
    obtain tp tc where t: "timestamp previous = Num tp" "timestamp current = Num tc"
      using Cons.prems dated by (metis list.set_intros(1,2))
    have pc: "newer_or_same previous current"
      using False t by (auto simp: by_timestamp_desc_negative newer_or_same_def)
    have ih: "sorted_wrt newer_or_same
           (current # take (run_length_from by_timestamp_desc False current rest) rest)"
      using Cons.IH[of current] Cons.prems by simp
    then have "\<forall>y\<in>set (take (run_length_from by_timestamp_desc False current rest) rest).
                 newer_or_same previous y"
      using pc newer_or_same_trans by auto
    then show ?thesis using False pc ih by simp
  qed
qed

lemma descending_run:
  "sorted_wrt older (previous # take (run_length_from by_timestamp_desc True previous rest) rest)"
proof (induction rest arbitrary: previous)
  case Nil
  then show ?case by simp
next
  case (Cons current rest)
  show ?case
  proof (cases "is_negative (by_timestamp_desc current previous)")
    case False
    then show ?thesis by simp
  next
    case True
    then have pc: "older previous current"
      by (auto simp: by_timestamp_desc_negative older_def)
    have ih: "sorted_wrt older (current # take (run_length_from by_timestamp_desc True current rest) rest)"
      by (rule Cons.IH)
    then have "\<forall>y\<in>set (take (run_length_from by_timestamp_desc True current rest) rest). older previous y"
      using pc by (auto simp: older_def)
    then show ?thesis using True pc ih by simp
  qed
qed

lemma strict_run_one_each:
  "sorted_wrt older xs \<Longrightarrow> length (filter (\<lambda>a. timestamp a = t) xs) \<le> 1"
proof (induction xs)
  case Nil
  then show ?case by simp
next
  case (Cons x xs)
  then have "timestamp x = t \<Longrightarrow> filter (\<lambda>a. timestamp a = t) xs = []"
    by (auto simp: filter_empty_conv older_def)
  then show ?case using Cons by auto
qed

lemma rev_strict_run:
  assumes "sorted_wrt older xs"
  shows "sorted_wrt newer_or_same (rev xs)"
    and "filter (\<lambda>a. timestamp a = t) (rev xs) = filter (\<lambda>a. timestamp a = t) xs"
proof -
  have "sorted_wrt (\<lambda>a b. older b a) (rev xs)" using assms by (simp add: sorted_wrt_rev)
  then show "sorted_wrt newer_or_same (rev xs)"
    by (rule sorted_wrt_mono_rel[rotated]) (auto simp: older_def newer_or_same_def)
  have "length (filter (\<lambda>a. timestamp a = t) xs) \<le> 1" by (rule strict_run_one_each[OF assms])
  then have "rev (filter (\<lambda>a. timestamp a = t) xs) = filter (\<lambda>a. timestamp a = t) xs"
    by (cases "filter (\<lambda>a. timestamp a = t) xs") (auto simp: le_Suc_eq)
  then show "filter (\<lambda>a. timestamp a = t) (rev xs) = filter (\<lambda>a. timestamp a = t) xs"
    by (simp add: rev_filter)
qed

lemma array_sort_dated:
  assumes "\<forall>y\<in>set xs. timestamp y \<noteq> NaN"
  shows "sorted_wrt newer_or_same (array_sort by_timestamp_desc xs)
    \<and> filter (\<lambda>a. timestamp a = t) (array_sort by_timestamp_desc xs) = filter (\<lambda>a. timestamp a = t) xs"
proof (cases xs)
  case Nil
  then show ?thesis by (simp add: array_sort_def)
next
  case (Cons x0 ys)
  show ?thesis
  proof (cases ys)
    case Nil
    then show ?thesis using Cons by (simp add: array_sort_def)
  next
    case (Cons x1 rest)
    have xs: "xs = x0 # x1 # rest" using \<open>xs = x0 # ys\<close> Cons by simp
    let ?desc = "is_negative (by_timestamp_desc x1 x0)"
    let ?m = "run_length_from by_timestamp_desc ?desc x1 rest"
    let ?run = "if ?desc then rev (x0 # x1 # take ?m rest) else x0 # x1 # take ?m rest"
    have split: "take (2 + ?m) xs = x0 # x1 # take ?m rest" "drop (2 + ?m) xs = drop ?m rest"
      by (simp_all add: xs)
    have sort: "array_sort by_timestamp_desc xs =
        foldl (\<lambda>front pivot. binary_insert by_timestamp_desc pivot front) ?run (drop ?m rest)"
      unfolding array_sort_def xs by (simp add: Let_def)
    have run: "sorted_wrt newer_or_same ?run
        \<and> filter (\<lambda>a. timestamp a = t) ?run = filter (\<lambda>a. timestamp a = t) (x0 # x1 # take ?m rest)"
    proof (cases ?desc)
      case True
      then have "older x0 x1" by (auto simp: by_timestamp_desc_negative older_def)
      moreover have tail: "sorted_wrt older (x1 # take ?m rest)" using True descending_run[of x1 rest] by simp
      moreover have "\<forall>y\<in>set (take ?m rest). older x0 y"
        using calculation by (auto simp: older_def)
      ultimately have "sorted_wrt older (x0 # x1 # take ?m rest)" by simp
      then show ?thesis
        using True rev_strict_run(1)[of "x0 # x1 # take ?m rest"]
          rev_strict_run(2)[of "x0 # x1 # take ?m rest" t] by simp
    next
      case False
      obtain t0 t1 where t: "timestamp x0 = Num t0" "timestamp x1 = Num t1"
        using assms xs dated by (metis list.set_intros(1,2))
      have 01: "newer_or_same x0 x1"
        using False t by (auto simp: by_timestamp_desc_negative newer_or_same_def)
      have tail: "sorted_wrt newer_or_same (x1 # take ?m rest)"
        using False ascending_run[of x1 rest] assms xs by simp
      then have "\<forall>y\<in>set (take ?m rest). newer_or_same x0 y"
        using 01 newer_or_same_trans by auto
      then show ?thesis using False 01 tail by simp
    qed
    have all: "\<forall>y\<in>set (?run @ drop ?m rest). timestamp y \<noteq> NaN"
    proof
      fix y assume "y \<in> set (?run @ drop ?m rest)"
      then have "y \<in> set (x0 # x1 # take ?m rest) \<or> y \<in> set (drop ?m rest)"
        by (auto split: if_splits)
      then have "y \<in> set xs"
        using xs by (auto dest: in_set_takeD in_set_dropD)
      then show "timestamp y \<noteq> NaN" using assms by blast
    qed
    have "filter (\<lambda>a. timestamp a = t) xs
        = filter (\<lambda>a. timestamp a = t) (x0 # x1 # take ?m rest) @ filter (\<lambda>a. timestamp a = t) (drop ?m rest)"
      by (simp only: xs filter_append[symmetric] append_take_drop_id append_Cons)
    then show ?thesis
      using insert_all_dated[OF conjunct1[OF run] all, of t] run by (simp only: sort)
  qed
qed

text \<open>
  Claim C5, as the code has it. The document holds the items of the articles that pass
  the filter, in the order the sort leaves them. Every emitted article has a score
  strictly greater than \<open>minimumScore\<close> (a score equal to it, or \<open>NaN\<close>, is excluded)
  and the emitted articles are exactly those that pass. When no article that passes has
  a \<open>NaN\<close> timestamp, the items are in non-increasing order of timestamp and articles
  with the same timestamp keep their input order.
\<close>

theorem writeArticlesFeed_order:
  "writeArticlesFeed cfg articles =
     feed_head @ join nl (map generateRssItem (filteredAndSorted cfg articles)) @ feed_tail
   \<and> (\<forall>a\<in>set (filteredAndSorted cfg articles).
         js_gt (score a) (Num (minimumScore cfg)) \<and> score a \<noteq> Num (minimumScore cfg))
   \<and> mset (filteredAndSorted cfg articles)
       = mset (filter (\<lambda>a. js_gt (score a) (Num (minimumScore cfg))) articles)
   \<and> ((\<forall>a\<in>set articles. js_gt (score a) (Num (minimumScore cfg)) \<longrightarrow> timestamp a \<noteq> NaN)
        \<longrightarrow> sorted_wrt newer_or_same (filteredAndSorted cfg articles)
          \<and> (\<forall>t. filter (\<lambda>a. timestamp a = t) (filteredAndSorted cfg articles)
                 = filter (\<lambda>a. timestamp a = t)
                     (filter (\<lambda>a. js_gt (score a) (Num (minimumScore cfg))) articles)))"
proof (intro conjI allI impI)
  let ?kept = "filter (\<lambda>a. js_gt (score a) (Num (minimumScore cfg))) articles"
  show "writeArticlesFeed cfg articles =
     feed_head @ join nl (map generateRssItem (filteredAndSorted cfg articles)) @ feed_tail"
    by (simp add: writeArticlesFeed_def)
  show "mset (filteredAndSorted cfg articles) = mset ?kept"
    by (simp add: filteredAndSorted_def mset_array_sort)
  have "set (filteredAndSorted cfg articles) = set ?kept"
    by (simp add: filteredAndSorted_def set_array_sort)
  then show "\<forall>a\<in>set (filteredAndSorted cfg articles).
         js_gt (score a) (Num (minimumScore cfg)) \<and> score a \<noteq> Num (minimumScore cfg)"
    by auto
next
  assume "\<forall>a\<in>set articles. js_gt (score a) (Num (minimumScore cfg)) \<longrightarrow> timestamp a \<noteq> NaN"
  then have dated: "\<forall>y\<in>set (filter (\<lambda>a. js_gt (score a) (Num (minimumScore cfg))) articles).
                      timestamp y \<noteq> NaN"
    by simp
  show "sorted_wrt newer_or_same (filteredAndSorted cfg articles)"
    unfolding filteredAndSorted_def using array_sort_dated[OF dated] by blast
  show "filter (\<lambda>a. timestamp a = t) (filteredAndSorted cfg articles)
          = filter (\<lambda>a. timestamp a = t)
              (filter (\<lambda>a. js_gt (score a) (Num (minimumScore cfg))) articles)" for t
    unfolding filteredAndSorted_def using array_sort_dated[OF dated, of t] by blast
qed

lemma ex_articles_sorted:
  "filteredAndSorted CONFIG ex_articles =
     [ex_article ''f'' (Num 5) (Num 12), ex_article ''c'' (Num 3) (Num 20),
      ex_article ''d'' (Num 3) (Num 11), ex_article ''a'' (Num 1) (Num 15)]"
  by code_simp

theorem writeArticlesFeed_order_witness:
  "sorted_wrt newer_or_same (filteredAndSorted CONFIG ex_articles)
   \<and> map title (filteredAndSorted CONFIG ex_articles) = [''f'', ''c'', ''d'', ''a'']
   \<and> filter (\<lambda>a. timestamp a = Num 3) (filteredAndSorted CONFIG ex_articles)
       = [ex_article ''c'' (Num 3) (Num 20), ex_article ''d'' (Num 3) (Num 11)]"
proof -
  have h: "\<forall>a\<in>set ex_articles. js_gt (score a) (Num (minimumScore CONFIG)) \<longrightarrow> timestamp a \<noteq> NaN"
    by (simp add: ex_articles_def ex_article_def)
  have k: "filter (\<lambda>a. timestamp a = Num 3)
             (filter (\<lambda>a. js_gt (score a) (Num (minimumScore CONFIG))) ex_articles)
           = [ex_article ''c'' (Num 3) (Num 20), ex_article ''d'' (Num 3) (Num 11)]"
    by (simp add: ex_articles_def ex_article_def CONFIG_def)
  from writeArticlesFeed_order[of CONFIG ex_articles] h
  have "sorted_wrt newer_or_same (filteredAndSorted CONFIG ex_articles)
          \<and> (\<forall>t. filter (\<lambda>a. timestamp a = t) (filteredAndSorted CONFIG ex_articles)
                 = filter (\<lambda>a. timestamp a = t)
                     (filter (\<lambda>a. js_gt (score a) (Num (minimumScore CONFIG))) ex_articles))"
    by blast
  then have "sorted_wrt newer_or_same (filteredAndSorted CONFIG ex_articles)"
    and "filter (\<lambda>a. timestamp a = Num 3) (filteredAndSorted CONFIG ex_articles)
       = [ex_article ''c'' (Num 3) (Num 20), ex_article ''d'' (Num 3) (Num 11)]"
    using k by simp_all
  moreover have "map title (filteredAndSorted CONFIG ex_articles) = [''f'', ''c'', ''d'', ''a'']"
    by (simp add: ex_articles_sorted ex_article_def)
  ultimately show ?thesis by simp
qed

text \<open>
  An article without a date between two dated ones: all three pass the filter, none is
  moved, and the older dated article is emitted before the newer one. And with two
  undated articles in a feed of seven, the last article, dated 2, is emitted ahead of
  the article before it in the feed, which has the same date.
\<close>

theorem writeArticlesFeed_order_counterexample:
  "filteredAndSorted CONFIG ex_undated_between = ex_undated_between
   \<and> map timestamp (filteredAndSorted CONFIG ex_undated_between) = [Num 1, NaN, Num 2]
   \<and> \<not> sorted_wrt (\<lambda>a b. \<not> js_lt (timestamp a) (timestamp b))
         (filteredAndSorted CONFIG ex_undated_between)
   \<and> map title ex_undated_run = [''a'', ''b'', ''u'', ''c'', ''v'', ''d'', ''e'']
   \<and> map title (filteredAndSorted CONFIG ex_undated_run) = [''b'', ''e'', ''a'', ''u'', ''c'', ''v'', ''d'']
   \<and> map title (filter (\<lambda>a. timestamp a = Num 2) ex_undated_run) = [''d'', ''e'']
   \<and> map title (filter (\<lambda>a. timestamp a = Num 2) (filteredAndSorted CONFIG ex_undated_run))
       = [''e'', ''d'']"
  by code_simp

text \<open>
  Claim C6, as the code has it. For a pair with a \<open>NaN\<close> timestamp the comparator's
  result is \<open>NaN\<close> in both directions, which the sort takes as zero: an undated article
  counts as equal to every other, also to two articles of different dates, so the
  comparator defines no total order and puts \<open>NaN\<close> neither first nor last. When the
  timestamps of a list are pairwise equal or \<open>NaN\<close>, the articles that pass the filter
  are emitted in their input order, an undated article where it stood in the feed.
\<close>

theorem sort_keeps_NaN_in_place:
  "(timestamp a = NaN \<or> timestamp b = NaN \<longrightarrow>
      by_timestamp_desc a b = NaN \<and> by_timestamp_desc b a = NaN
      \<and> \<not> is_negative (by_timestamp_desc a b) \<and> \<not> is_negative (by_timestamp_desc b a))
   \<and> (timestamp a = NaN \<and> timestamp b = Num x \<and> timestamp c = Num y \<and> x < y \<longrightarrow>
        \<not> is_negative (by_timestamp_desc a b) \<and> \<not> is_negative (by_timestamp_desc b a)
        \<and> \<not> is_negative (by_timestamp_desc a c) \<and> \<not> is_negative (by_timestamp_desc c a)
        \<and> is_negative (by_timestamp_desc c b))
   \<and> ((\<forall>x\<in>set articles. \<forall>z\<in>set articles.
          timestamp x = NaN \<or> timestamp z = NaN \<or> timestamp x = timestamp z)
        \<longrightarrow> filteredAndSorted cfg articles
            = filter (\<lambda>a. js_gt (score a) (Num (minimumScore cfg))) articles)"
proof (intro conjI impI)
  assume "timestamp a = NaN \<or> timestamp b = NaN"
  then show "by_timestamp_desc a b = NaN" "by_timestamp_desc b a = NaN"
    "\<not> is_negative (by_timestamp_desc a b)" "\<not> is_negative (by_timestamp_desc b a)"
    by (cases "timestamp a"; cases "timestamp b"; simp add: by_timestamp_desc_def is_negative_def)+
next
  assume "timestamp a = NaN \<and> timestamp b = Num x \<and> timestamp c = Num y \<and> x < y"
  then show "\<not> is_negative (by_timestamp_desc a b)" "\<not> is_negative (by_timestamp_desc b a)"
    "\<not> is_negative (by_timestamp_desc a c)" "\<not> is_negative (by_timestamp_desc c a)"
    "is_negative (by_timestamp_desc c b)"
    by (simp_all add: by_timestamp_desc_def is_negative_def)
next
  assume h: "\<forall>x\<in>set articles. \<forall>z\<in>set articles.
          timestamp x = NaN \<or> timestamp z = NaN \<or> timestamp x = timestamp z"
  show "filteredAndSorted cfg articles
            = filter (\<lambda>a. js_gt (score a) (Num (minimumScore cfg))) articles"
    unfolding filteredAndSorted_def
  proof (rule array_sort_unmoved, intro ballI)
    fix x z
    assume "x \<in> set (filter (\<lambda>a. js_gt (score a) (Num (minimumScore cfg))) articles)"
      and "z \<in> set (filter (\<lambda>a. js_gt (score a) (Num (minimumScore cfg))) articles)"
    then have "x \<in> set articles" "z \<in> set articles" by simp_all
    then have "timestamp x = NaN \<or> timestamp z = NaN \<or> timestamp x = timestamp z"
      using h by blast
    then show "\<not> is_negative (by_timestamp_desc x z)"
      by (auto simp: by_timestamp_desc_negative)
  qed
qed

theorem sort_keeps_NaN_in_place_witness:
  "map timestamp ex_undated_mixed = [Num 5, NaN, NaN, Num 5]
   \<and> map title (filteredAndSorted CONFIG ex_undated_mixed) = [''a'', ''u'', ''b'']
   \<and> by_timestamp_desc (ex_article ''u'' NaN (Num 15)) (ex_article ''a'' (Num 5) (Num 15)) = NaN
   \<and> is_negative (by_timestamp_desc (ex_article ''b'' (Num 7) (Num 15)) (ex_article ''a'' (Num 5) (Num 15)))"
proof -
  have h: "\<forall>x\<in>set ex_undated_mixed. \<forall>z\<in>set ex_undated_mixed.
          timestamp x = NaN \<or> timestamp z = NaN \<or> timestamp x = timestamp z"
    by (simp add: ex_undated_mixed_def ex_article_def)
  have t: "timestamp (ex_article ''u'' NaN (Num 15)) = NaN \<or> timestamp (ex_article ''a'' (Num 5) (Num 15)) = NaN"
    by (simp add: ex_article_def)
  have n: "timestamp (ex_article ''u'' NaN (Num 15)) = NaN \<and> timestamp (ex_article ''a'' (Num 5) (Num 15)) = Num 5
           \<and> timestamp (ex_article ''b'' (Num 7) (Num 15)) = Num 7 \<and> (5::int) < 7"
    by (simp add: ex_article_def)
  note inst = sort_keeps_NaN_in_place[of "ex_article ''u'' NaN (Num 15)" "ex_article ''a'' (Num 5) (Num 15)"
      5 "ex_article ''b'' (Num 7) (Num 15)" 7 ex_undated_mixed CONFIG]
  have "filteredAndSorted CONFIG ex_undated_mixed
            = filter (\<lambda>a. js_gt (score a) (Num (minimumScore CONFIG))) ex_undated_mixed"
    using inst h by blast
  moreover have "by_timestamp_desc (ex_article ''u'' NaN (Num 15)) (ex_article ''a'' (Num 5) (Num 15)) = NaN"
    using inst t by blast
  moreover have "is_negative (by_timestamp_desc (ex_article ''b'' (Num 7) (Num 15)) (ex_article ''a'' (Num 5) (Num 15)))"
    using inst n by blast
  ultimately show ?thesis by (simp add: ex_undated_mixed_def ex_article_def CONFIG_def)
qed

text \<open>An article without a date, first in the feed, is emitted first and not last.\<close>

theorem sort_NaN_last_counterexample:
  "filteredAndSorted CONFIG ex_undated_first = ex_undated_first
   \<and> timestamp (hd (filteredAndSorted CONFIG ex_undated_first)) = NaN
   \<and> timestamp (last (filteredAndSorted CONFIG ex_undated_first)) = Num 5"
  by code_simp

text \<open>
  Among articles of different dates the place of an undated article is the matter of the
  sort's algorithm: third of four in this feed, it is emitted last.
\<close>

lemma ex_undated_third_sorted:
  "map title ex_undated_third = [''a'', ''b'', ''u'', ''c'']
   \<and> map title (filteredAndSorted CONFIG ex_undated_third) = [''b'', ''c'', ''a'', ''u'']"
  by code_simp

section \<open>Properties of the pipeline\<close>

lemma match_all_from_none:
  assumes "\<forall>i. match_at tag (drop i s) = None"
  shows "match_all_from tag 0 s = []"
  using assms
proof (induction s)
  case Nil
  show ?case by simp
next
  case (Cons c cs)
  have here: "match_at tag (c # cs) = None" using Cons.prems[rule_format, of 0] by simp
  have "\<forall>i. match_at tag (drop i cs) = None"
  proof
    fix i show "match_at tag (drop i cs) = None" using Cons.prems[rule_format, of "Suc i"] by simp
  qed
  then show ?case using Cons.IH here by simp
qed

lemma search_tag_none:
  "search_tag tag s = None \<longleftrightarrow> (\<forall>i. match_at tag (drop i s) = None)"
proof (induction s)
  case Nil
  show ?case by (simp add: match_at_def)
next
  case (Cons c cs)
  have "(\<forall>i. match_at tag (drop i (c # cs)) = None) \<longleftrightarrow>
        match_at tag (c # cs) = None \<and> (\<forall>i. match_at tag (drop i cs) = None)"
  proof
    assume h: "\<forall>i. match_at tag (drop i (c # cs)) = None"
    show "match_at tag (c # cs) = None \<and> (\<forall>i. match_at tag (drop i cs) = None)"
    proof (intro conjI allI)
      show "match_at tag (c # cs) = None" using h[rule_format, of 0] by simp
      fix i show "match_at tag (drop i cs) = None" using h[rule_format, of "Suc i"] by simp
    qed
  next
    assume h: "match_at tag (c # cs) = None \<and> (\<forall>i. match_at tag (drop i cs) = None)"
    show "\<forall>i. match_at tag (drop i (c # cs)) = None"
    proof
      fix i show "match_at tag (drop i (c # cs)) = None" using h by (cases i) simp_all
    qed
  qed
  then show ?case using Cons.IH by (simp split: option.split)
qed

text \<open>
  Claim C8. When the request for the feed is rejected (the \<open>fetch\<close> or the read of
  the body throws), \<open>fetchAllArticles\<close> returns the empty list; it does the same when
  the body arrives and the item expression matches at no position of it. In both cases
  one request has been sent and nothing else has happened.
\<close>

theorem fetchAllArticles_degrades:
  "(net e (requests w) url = Rejects msg \<longrightarrow>
      fetchAllArticles cfg e url w = ([], w\<lparr>requests := Suc (requests w)\<rparr>))
   \<and> (net e (requests w) url = Body xmlText \<and> (\<forall>i. match_at ''item'' (drop i xmlText) = None) \<longrightarrow>
      fetchAllArticles cfg e url w = ([], w\<lparr>requests := Suc (requests w)\<rparr>))"
  using match_all_from_none[of "''item''" xmlText]
  by (simp add: fetchAllArticles_def fetch_text_def)

lemma empty_feed_no_item: "\<forall>i. match_at ''item'' (drop i ''<rss><channel></channel></rss>'') = None"
proof -
  have "search_tag ''item'' ''<rss><channel></channel></rss>'' = None"
    by (simp add: match_at_def to_upper_def)
  then show ?thesis using search_tag_none[of "''item''" "''<rss><channel></channel></rss>''"] by blast
qed

theorem fetchAllArticles_degrades_witness:
  "fetchAllArticles CONFIG (ex_env network_down) (feedUrl CONFIG) ex_world
     = ([], ex_world\<lparr>requests := 1\<rparr>)
   \<and> fetchAllArticles CONFIG (ex_env empty_feed) (feedUrl CONFIG) ex_world
     = ([], ex_world\<lparr>requests := 1\<rparr>)"
proof -
  have 1: "net (ex_env network_down) (requests ex_world) (feedUrl CONFIG) = Rejects ''fetch failed''"
    by (simp add: ex_env_def network_down_def)
  have 2: "net (ex_env empty_feed) (requests ex_world) (feedUrl CONFIG) = Body ''<rss><channel></channel></rss>''"
    by (simp add: ex_env_def empty_feed_def)
  have r: "requests ex_world = 0" by (simp add: ex_world_def)
  from fetchAllArticles_degrades[of "ex_env network_down" ex_world "feedUrl CONFIG" "''fetch failed''" CONFIG]
  have a: "fetchAllArticles CONFIG (ex_env network_down) (feedUrl CONFIG) ex_world
     = ([], ex_world\<lparr>requests := 1\<rparr>)" using 1 r by simp
  from fetchAllArticles_degrades[of "ex_env empty_feed" ex_world "feedUrl CONFIG" _ CONFIG
      "''<rss><channel></channel></rss>''"]
  have b: "fetchAllArticles CONFIG (ex_env empty_feed) (feedUrl CONFIG) ex_world
     = ([], ex_world\<lparr>requests := 1\<rparr>)" using 2 r empty_feed_no_item by simp
  show ?thesis using a b by simp
qed

section \<open>Properties of the cache policy\<close>

lemma fetch_score_frame:
  "kv (snd (fetchArticleScore cfg e url rc w)) = kv w
   \<and> kv_log (snd (fetchArticleScore cfg e url rc w)) = kv_log w"
  using fetch_score_effects[of rc cfg e url w] by auto

lemma score_articles_frame:
  "kv (snd (score_articles cfg e as w)) = kv w \<and> kv_log (snd (score_articles cfg e as w)) = kv_log w"
proof (induction as arbitrary: w)
  case Nil
  show ?case by simp
next
  case (Cons a rest)
  obtain sc w1 where f: "fetchArticleScore cfg e (comments a) 0 w = (sc, w1)"
    by (cases "fetchArticleScore cfg e (comments a) 0 w")
  have w1: "kv w1 = kv w" "kv_log w1 = kv_log w"
    using fetch_score_frame[of cfg e "comments a" 0 w] f by simp_all
  let ?w2 = "if rest \<noteq> [] then sleep (rateLimitDelay cfg) w1 else w1"
  have w2: "kv ?w2 = kv w" "kv_log ?w2 = kv_log w" using w1 by (simp_all add: sleep_def)
  obtain out w3 where s: "score_articles cfg e rest ?w2 = (out, w3)"
    by (cases "score_articles cfg e rest ?w2")
  have "kv w3 = kv w" "kv_log w3 = kv_log w"
    using Cons.IH[of ?w2] s w2 by simp_all
  then show ?case using f s by simp
qed

lemma fetchAllArticles_frame:
  "kv (snd (fetchAllArticles cfg e url w)) = kv w
   \<and> kv_log (snd (fetchAllArticles cfg e url w)) = kv_log w"
proof (cases "net e (requests w) url")
  case (Rejects m)
  then show ?thesis by (simp add: fetchAllArticles_def fetch_text_def)
next
  case (Body xmlText)
  then show ?thesis
    using score_articles_frame[of cfg e _ "w\<lparr>requests := Suc (requests w)\<rparr>"]
    by (simp add: fetchAllArticles_def fetch_text_def)
qed

lemma generate_and_store_ok:
  assumes "kv_fault e (length (kv_log w)) = None"
  shows "generate_and_store e w =
     (feed_response (writeArticlesFeed CONFIG (fst (fetchAllArticles CONFIG e (feedUrl CONFIG) w))) ''MISS'',
      (snd (fetchAllArticles CONFIG e (feedUrl CONFIG) w))
        \<lparr>kv_log := kv_log w @ [KvPut (cacheKey CONFIG)
             (writeArticlesFeed CONFIG (fst (fetchAllArticles CONFIG e (feedUrl CONFIG) w)))
             (cacheMaxAge CONFIG)],
         kv := (kv w)(cacheKey CONFIG \<mapsto>
             (writeArticlesFeed CONFIG (fst (fetchAllArticles CONFIG e (feedUrl CONFIG) w)),
              cacheMaxAge CONFIG))\<rparr>)"
proof -
  obtain articles w1 where f: "fetchAllArticles CONFIG e (feedUrl CONFIG) w = (articles, w1)"
    by (cases "fetchAllArticles CONFIG e (feedUrl CONFIG) w")
  have fr: "kv w1 = kv w" "kv_log w1 = kv_log w"
    using fetchAllArticles_frame[of CONFIG e "feedUrl CONFIG" w] f by simp_all
  show ?thesis using assms f fr by (simp add: generate_and_store_def kv_put_def Let_def)
qed

lemma generate_and_store_log:
  "\<exists>doc. kv_log (snd (generate_and_store e w)) = kv_log w @ [KvPut (cacheKey CONFIG) doc (cacheMaxAge CONFIG)]"
proof -
  obtain articles w1 where f: "fetchAllArticles CONFIG e (feedUrl CONFIG) w = (articles, w1)"
    by (cases "fetchAllArticles CONFIG e (feedUrl CONFIG) w")
  have fr: "kv_log w1 = kv_log w"
    using fetchAllArticles_frame[of CONFIG e "feedUrl CONFIG" w] f by simp
  show ?thesis using f fr
    by (cases "kv_fault e (length (kv_log w))") (simp_all add: generate_and_store_def kv_put_def Let_def)
qed

lemma show_nat_1800: "show_nat 1800 = ''1800''"
  by (simp add: show_nat.simps[of 1800] show_nat.simps[of 180] show_nat.simps[of 18]
      show_nat.simps[of "Suc 0"] digit_char_def)

text \<open>
  Claim C9. For a request to \<open>/\<close>: with \<open>force_refresh\<close> or \<open>clear_cache\<close> among the
  query parameters the store is not read, the only store operation is the \<open>put\<close> of
  the fresh document. Without them, a read that returns a document (a string that is
  not empty) is answered at once with that document and \<open>X-Cache: HIT\<close>, and the
  pipeline does not run. On a miss, and on a bypass, the pipeline runs, its document is
  put under the cache key with the time-to-live \<open>cacheMaxAge\<close>, and the same document
  is served with \<open>X-Cache: MISS\<close>. The store operations are taken not to raise here.
\<close>

theorem worker_fetch_cache_policy:
  assumes "pathname req = ''/''"
  shows
   "(has_param req ''force_refresh'' \<or> has_param req ''clear_cache'' \<longrightarrow>
       (\<exists>doc. kv_log (snd (worker_fetch e req w))
               = kv_log w @ [KvPut (cacheKey CONFIG) doc (cacheMaxAge CONFIG)])
       \<and> (kv_fault e (length (kv_log w)) = None \<longrightarrow>
            (let articles = fst (fetchAllArticles CONFIG e (feedUrl CONFIG) w);
                 w1 = snd (fetchAllArticles CONFIG e (feedUrl CONFIG) w);
                 rssFeed = writeArticlesFeed CONFIG articles
             in worker_fetch e req w =
                  (Inr (feed_response rssFeed ''MISS''),
                   w1\<lparr>kv_log := kv_log w @ [KvPut (cacheKey CONFIG) rssFeed (cacheMaxAge CONFIG)],
                      kv := (kv w)(cacheKey CONFIG \<mapsto> (rssFeed, cacheMaxAge CONFIG))\<rparr>))))
    \<and> (\<not> has_param req ''force_refresh'' \<and> \<not> has_param req ''clear_cache''
         \<and> kv_fault e (length (kv_log w)) = None
         \<and> kv w (cacheKey CONFIG) = Some (doc, ttl) \<and> doc \<noteq> [] \<longrightarrow>
       worker_fetch e req w =
         (Inr (feed_response doc ''HIT''), w\<lparr>kv_log := kv_log w @ [KvGet (cacheKey CONFIG)]\<rparr>))
    \<and> (\<not> has_param req ''force_refresh'' \<and> \<not> has_param req ''clear_cache''
         \<and> kv_fault e (length (kv_log w)) = None \<and> kv_fault e (Suc (length (kv_log w))) = None
         \<and> kv w (cacheKey CONFIG) = None \<longrightarrow>
       (let w0 = w\<lparr>kv_log := kv_log w @ [KvGet (cacheKey CONFIG)]\<rparr>;
            articles = fst (fetchAllArticles CONFIG e (feedUrl CONFIG) w0);
            w1 = snd (fetchAllArticles CONFIG e (feedUrl CONFIG) w0);
            rssFeed = writeArticlesFeed CONFIG articles
        in worker_fetch e req w =
             (Inr (feed_response rssFeed ''MISS''),
              w1\<lparr>kv_log := kv_log w @ [KvGet (cacheKey CONFIG),
                                         KvPut (cacheKey CONFIG) rssFeed (cacheMaxAge CONFIG)],
                 kv := (kv w)(cacheKey CONFIG \<mapsto> (rssFeed, cacheMaxAge CONFIG))\<rparr>)))
    \<and> headers (feed_response doc marker) =
        [(''Content-Type'', ''application/rss+xml; charset=utf-8''),
         (''Cache-Control'', ''public, max-age=1800''), (''X-Cache'', marker)]
    \<and> status (feed_response doc marker) = 200 \<and> body (feed_response doc marker) = doc"
proof -
  have path: "pathname req \<noteq> ''/clear-cache''" "pathname req \<noteq> ''/index.xml''"
    using assms by simp_all
  have bypass: "worker_fetch e req w = (Inr (fst (generate_and_store e w)), snd (generate_and_store e w))"
    if "has_param req ''force_refresh'' \<or> has_param req ''clear_cache''"
    using that path by (simp add: worker_fetch_def serve_feed_def split: prod.split)
  have hit: "worker_fetch e req w =
         (Inr (feed_response doc ''HIT''), w\<lparr>kv_log := kv_log w @ [KvGet (cacheKey CONFIG)]\<rparr>)"
    if "\<not> has_param req ''force_refresh'' \<and> \<not> has_param req ''clear_cache''
         \<and> kv_fault e (length (kv_log w)) = None
         \<and> kv w (cacheKey CONFIG) = Some (doc, ttl) \<and> doc \<noteq> []"
    using that path by (simp add: worker_fetch_def serve_feed_def kv_get_def)
  have miss: "worker_fetch e req w =
       (Inr (fst (generate_and_store e (w\<lparr>kv_log := kv_log w @ [KvGet (cacheKey CONFIG)]\<rparr>))),
        snd (generate_and_store e (w\<lparr>kv_log := kv_log w @ [KvGet (cacheKey CONFIG)]\<rparr>)))"
    if "\<not> has_param req ''force_refresh'' \<and> \<not> has_param req ''clear_cache''
         \<and> kv_fault e (length (kv_log w)) = None \<and> kv w (cacheKey CONFIG) = None"
    using that path by (simp add: worker_fetch_def serve_feed_def kv_get_def split: prod.split)
  show ?thesis
  proof (intro conjI impI)
    assume b: "has_param req ''force_refresh'' \<or> has_param req ''clear_cache''"
    show "\<exists>doc. kv_log (snd (worker_fetch e req w))
               = kv_log w @ [KvPut (cacheKey CONFIG) doc (cacheMaxAge CONFIG)]"
      using bypass[OF b] generate_and_store_log[of e w] by simp
    assume ok: "kv_fault e (length (kv_log w)) = None"
    show "let articles = fst (fetchAllArticles CONFIG e (feedUrl CONFIG) w);
                 w1 = snd (fetchAllArticles CONFIG e (feedUrl CONFIG) w);
                 rssFeed = writeArticlesFeed CONFIG articles
             in worker_fetch e req w =
                  (Inr (feed_response rssFeed ''MISS''),
                   w1\<lparr>kv_log := kv_log w @ [KvPut (cacheKey CONFIG) rssFeed (cacheMaxAge CONFIG)],
                      kv := (kv w)(cacheKey CONFIG \<mapsto> (rssFeed, cacheMaxAge CONFIG))\<rparr>)"
      using bypass[OF b] generate_and_store_ok[OF ok] by (simp add: Let_def)
  next
    assume "\<not> has_param req ''force_refresh'' \<and> \<not> has_param req ''clear_cache''
         \<and> kv_fault e (length (kv_log w)) = None
         \<and> kv w (cacheKey CONFIG) = Some (doc, ttl) \<and> doc \<noteq> []"
    then show "worker_fetch e req w =
         (Inr (feed_response doc ''HIT''), w\<lparr>kv_log := kv_log w @ [KvGet (cacheKey CONFIG)]\<rparr>)"
      by (rule hit)
  next
    assume m: "\<not> has_param req ''force_refresh'' \<and> \<not> has_param req ''clear_cache''
         \<and> kv_fault e (length (kv_log w)) = None \<and> kv_fault e (Suc (length (kv_log w))) = None
         \<and> kv w (cacheKey CONFIG) = None"
    let ?w0 = "w\<lparr>kv_log := kv_log w @ [KvGet (cacheKey CONFIG)]\<rparr>"
    have ok: "kv_fault e (length (kv_log ?w0)) = None" using m by simp
    show "let w0 = ?w0;
            articles = fst (fetchAllArticles CONFIG e (feedUrl CONFIG) w0);
            w1 = snd (fetchAllArticles CONFIG e (feedUrl CONFIG) w0);
            rssFeed = writeArticlesFeed CONFIG articles
        in worker_fetch e req w =
             (Inr (feed_response rssFeed ''MISS''),
              w1\<lparr>kv_log := kv_log w @ [KvGet (cacheKey CONFIG),
                                         KvPut (cacheKey CONFIG) rssFeed (cacheMaxAge CONFIG)],
                 kv := (kv w)(cacheKey CONFIG \<mapsto> (rssFeed, cacheMaxAge CONFIG))\<rparr>)"
      using miss m generate_and_store_ok[OF ok] by (simp add: Let_def)
  next
    show "headers (feed_response doc marker) =
        [(''Content-Type'', ''application/rss+xml; charset=utf-8''),
         (''Cache-Control'', ''public, max-age=1800''), (''X-Cache'', marker)]"
      by (simp add: feed_response_def CONFIG_def show_nat_1800)
  qed (simp_all add: feed_response_def)
qed

lemma test_run_articles:
  "fst (fetchAllArticles CONFIG test_env (feedUrl CONFIG) ex_world) = [test_article]"
  "fst (fetchAllArticles CONFIG test_env (feedUrl CONFIG)
         (ex_world\<lparr>kv_log := kv_log ex_world @ [KvGet (cacheKey CONFIG)]\<rparr>)) = [test_article]"
  by code_simp+

lemma test_document:
  "writeArticlesFeed CONFIG [test_article] = feed_head @ generateRssItem test_article @ feed_tail"
  by (simp add: writeArticlesFeed_def filteredAndSorted_def array_sort_def test_article_def CONFIG_def)

theorem worker_fetch_cache_policy_witness:
  "fst (worker_fetch test_env (root_request []) ex_world)
     = Inr (feed_response (writeArticlesFeed CONFIG [test_article]) ''MISS'')
   \<and> kv (snd (worker_fetch test_env (root_request []) ex_world)) ''lobsters-rss-feed''
     = Some (writeArticlesFeed CONFIG [test_article], 1800)
   \<and> worker_fetch test_env (root_request []) (snd (worker_fetch test_env (root_request []) ex_world))
     = (Inr (feed_response (writeArticlesFeed CONFIG [test_article]) ''HIT''),
        (snd (worker_fetch test_env (root_request []) ex_world))
          \<lparr>kv_log := [KvGet ''lobsters-rss-feed'',
                      KvPut ''lobsters-rss-feed'' (writeArticlesFeed CONFIG [test_article]) 1800,
                      KvGet ''lobsters-rss-feed'']\<rparr>)
   \<and> fst (worker_fetch test_env (root_request [(''force_refresh'', ''1'')]) ex_world)
     = Inr (feed_response (writeArticlesFeed CONFIG [test_article]) ''MISS'')
   \<and> kv_log (snd (worker_fetch test_env (root_request [(''force_refresh'', ''1'')]) ex_world))
     = [KvPut ''lobsters-rss-feed'' (writeArticlesFeed CONFIG [test_article]) 1800]"
proof -
  let ?doc = "writeArticlesFeed CONFIG [test_article]"
  have path: "\<And>ps. pathname (root_request ps) = ''/''" by (simp add: root_request_def)
  have plain: "\<not> has_param (root_request []) ''force_refresh''"
    "\<not> has_param (root_request []) ''clear_cache''"
    by (simp_all add: has_param_def root_request_def)
  have forced: "has_param (root_request [(''force_refresh'', ''1'')]) ''force_refresh''"
    by (simp add: has_param_def root_request_def)
  have ok: "\<And>k. kv_fault test_env k = None" by (simp add: test_env_def)
  have cfg: "cacheKey CONFIG = ''lobsters-rss-feed''" "cacheMaxAge CONFIG = 1800"
    by (simp_all add: CONFIG_def)
  have empty: "kv ex_world (cacheKey CONFIG) = None" "kv_log ex_world = []"
    by (simp_all add: ex_world_def)
  have doc: "?doc \<noteq> []" by (simp add: test_document feed_head_def)
  note pol = worker_fetch_cache_policy[OF path]
  have miss: "worker_fetch test_env (root_request []) ex_world =
      (Inr (feed_response ?doc ''MISS''),
       (snd (fetchAllArticles CONFIG test_env (feedUrl CONFIG)
              (ex_world\<lparr>kv_log := kv_log ex_world @ [KvGet (cacheKey CONFIG)]\<rparr>)))
         \<lparr>kv_log := kv_log ex_world @ [KvGet (cacheKey CONFIG), KvPut (cacheKey CONFIG) ?doc (cacheMaxAge CONFIG)],
          kv := (kv ex_world)(cacheKey CONFIG \<mapsto> (?doc, cacheMaxAge CONFIG))\<rparr>)"
    using pol[of "[]" test_env ex_world] plain ok empty(1)
    by (simp add: Let_def test_run_articles(2))
  let ?w1 = "snd (worker_fetch test_env (root_request []) ex_world)"
  have w1: "kv ?w1 (cacheKey CONFIG) = Some (?doc, 1800)"
    "kv_log ?w1 = [KvGet (cacheKey CONFIG), KvPut (cacheKey CONFIG) ?doc (cacheMaxAge CONFIG)]"
    by (simp_all add: miss cfg(2) empty(2))
  have hit: "worker_fetch test_env (root_request []) ?w1 =
      (Inr (feed_response ?doc ''HIT''), ?w1\<lparr>kv_log := kv_log ?w1 @ [KvGet (cacheKey CONFIG)]\<rparr>)"
    using pol[of "[]" test_env ?w1 ?doc 1800] plain ok w1(1) doc by blast
  have bypass: "worker_fetch test_env (root_request [(''force_refresh'', ''1'')]) ex_world =
      (Inr (feed_response ?doc ''MISS''),
       (snd (fetchAllArticles CONFIG test_env (feedUrl CONFIG) ex_world))
         \<lparr>kv_log := kv_log ex_world @ [KvPut (cacheKey CONFIG) ?doc (cacheMaxAge CONFIG)],
          kv := (kv ex_world)(cacheKey CONFIG \<mapsto> (?doc, cacheMaxAge CONFIG))\<rparr>)"
    using pol[of "[(''force_refresh'', ''1'')]" test_env ex_world] forced ok
    by (simp add: Let_def test_run_articles(1))
  show ?thesis
    by (simp add: hit w1 bypass empty(2)) (simp add: miss cfg)
qed

end
